theory Spec2Isabelle
  imports Complex_Main
begin

section \<open>Faults\<close>

text \<open>
  The sources report errors in one way only: \<^verbatim>\<open>pagmo_throw(value_error, msg)\<close>, a C++
  exception that the caller can catch. Two further outcomes are possible in the code as
  written, and neither is reported by it: an index outside a \<^verbatim>\<open>std::vector\<close> handed to the
  unchecked \<^verbatim>\<open>operator[]\<close>, and an integer division by zero. Both are undefined behaviour of
  C++. The model gives each its own constructor, so that every path of the source on which
  they occur is a branch of the model. \<open>index_error\<close> is the exception of the checked
  accessor of the population class used by \<^verbatim>\<open>sa_corana\<close>.
\<close>

datatype fault =
    value_error string
  | index_error
  | out_of_range
  | division_by_zero

text \<open>An outcome is a detectable fault when it is a thrown exception.\<close>

fun detectable :: "fault \<Rightarrow> bool" where
  "detectable (value_error msg) = True"
| "detectable index_error = True"
| "detectable out_of_range = False"
| "detectable division_by_zero = False"

definition fault_bind :: "fault + 'a \<Rightarrow> ('a \<Rightarrow> fault + 'b) \<Rightarrow> fault + 'b" where
  "fault_bind m f = (case m of Inl e \<Rightarrow> Inl e | Inr x \<Rightarrow> f x)"

text \<open>
  \<^verbatim>\<open>v[n]\<close> on a \<^verbatim>\<open>std::vector\<close>, with the index an \<^verbatim>\<open>int\<close> as everywhere in
  \<^verbatim>\<open>population.cpp\<close>: a negative index converts to a huge unsigned one, so it is out of range
  as well.
\<close>

definition vec_at :: "'a list \<Rightarrow> int \<Rightarrow> fault + 'a" where
  "vec_at xs n = (if 0 \<le> n \<and> n < int (length xs) then Inr (xs ! nat n) else Inl out_of_range)"

text \<open>A counted loop whose body may fault: the first fault ends the run.\<close>

primrec for_each :: "nat list \<Rightarrow> (nat \<Rightarrow> 's \<Rightarrow> fault + 's) \<Rightarrow> 's \<Rightarrow> fault + 's" where
  "for_each [] f s = Inr s"
| "for_each (i # is) f s = fault_bind (f i s) (for_each is f)"

section \<open>Random source\<close>

text \<open>
  The generator is passed explicitly in the sources (\<^verbatim>\<open>rng_type &rng\<close>) or owned by the
  algorithm (\<^verbatim>\<open>m_drng\<close>). Its code is not part of the sources under study; it is taken as
  the sequence of doubles it is going to return. Doubles are modelled as real numbers:
  the comparisons of the sources are exact on them, rounding and NaN are outside the model.
\<close>

type_synonym rng_type = "nat \<Rightarrow> real"

definition nextDouble :: "rng_type \<Rightarrow> real \<times> rng_type" where
  "nextDouble rng = (rng 0, \<lambda>k. rng (Suc k))"

text \<open>The cast \<^verbatim>\<open>(int)\<close> of a double truncates towards zero.\<close>

definition int_cast :: "real \<Rightarrow> int" where
  "int_cast v = (if 0 \<le> v then \<lfloor>v\<rfloor> else \<lceil>v\<rceil>)"

section \<open>Individual and Population (\<^verbatim>\<open>GOclasses/basic/population.cpp\<close>)\<close>

text \<open>
  The class \<^verbatim>\<open>Individual\<close> is declared outside the sources; \<^verbatim>\<open>population.cpp\<close> uses its three
  getters and three setters, which are the fields of the record.
\<close>

record Individual =
  getDecisionVector :: "real list"
  getVelocity :: "real list"
  getFitness :: real

definition setDecisionVector :: "real list \<Rightarrow> Individual \<Rightarrow> Individual" where
  "setDecisionVector dv ind = ind\<lparr>getDecisionVector := dv\<rparr>"

definition setVelocity :: "real list \<Rightarrow> Individual \<Rightarrow> Individual" where
  "setVelocity vel ind = ind\<lparr>getVelocity := vel\<rparr>"

definition setFitness :: "real \<Rightarrow> Individual \<Rightarrow> Individual" where
  "setFitness f ind = ind\<lparr>getFitness := f\<rparr>"

text \<open>The only data member of \<^verbatim>\<open>Population\<close> is the vector \<^verbatim>\<open>pop\<close>.\<close>

type_synonym Population = "Individual list"

definition addIndividual :: "Individual \<Rightarrow> Population \<Rightarrow> Population" where
  "addIndividual x pop = pop @ [x]"

definition substituteIndividual :: "Individual \<Rightarrow> int \<Rightarrow> Population \<Rightarrow> fault + Population" where
  "substituteIndividual x n pop =
     fault_bind (vec_at pop n) (\<lambda>old.
       Inr (pop[nat n := setFitness (getFitness x)
                          (setVelocity (getVelocity x)
                            (setDecisionVector (getDecisionVector x) old))]))"

definition operator_index :: "Population \<Rightarrow> int \<Rightarrow> fault + Individual" where
  "operator_index pop index = vec_at pop index"

text \<open>\<^verbatim>\<open>PossiblePicks.erase(PossiblePicks.begin() + Pick)\<close>\<close>

definition erase :: "'a list \<Rightarrow> nat \<Rightarrow> 'a list" where
  "erase xs k = take k xs @ drop (Suc k) xs"

text \<open>
  The loop of \<^verbatim>\<open>extractRandomDeme\<close>, on the number of iterations still to run. Its state is
  the deme, the caller's \<^verbatim>\<open>picks\<close>, the pool \<^verbatim>\<open>PossiblePicks\<close> and the generator; the
  population is only read.
\<close>

fun extractRandomDeme_loop ::
  "nat \<Rightarrow> Population \<Rightarrow> Population \<times> int list \<times> int list \<times> rng_type
     \<Rightarrow> fault + (Population \<times> int list \<times> int list \<times> rng_type)" where
  "extractRandomDeme_loop 0 pop st = Inr st"
| "extractRandomDeme_loop (Suc k) pop (deme, picks, PossiblePicks, rng) =
     (let (d, rng') = nextDouble rng;
          Pick = int_cast (d * real (length PossiblePicks))
      in fault_bind (vec_at PossiblePicks Pick) (\<lambda>p.
         fault_bind (vec_at pop p) (\<lambda>ind.
           extractRandomDeme_loop k pop
             (addIndividual ind deme, picks @ [p], erase PossiblePicks (nat Pick), rng'))))"

text \<open>
  \<^verbatim>\<open>extractRandomDeme(N, picks, rng)\<close> returns the deme; \<^verbatim>\<open>picks\<close> and \<^verbatim>\<open>rng\<close> are
  reference parameters and come back updated. The population after the call is the fourth
  component of the result: the function never writes to it.
\<close>

definition extractRandomDeme ::
  "int \<Rightarrow> int list \<Rightarrow> rng_type \<Rightarrow> Population
     \<Rightarrow> fault + (Population \<times> int list \<times> rng_type \<times> Population)" where
  "extractRandomDeme N picks rng pop =
     fault_bind
       (extractRandomDeme_loop (nat N) pop ([], picks, map int [0..<length pop], rng))
       (\<lambda>(deme, picks', PossiblePicks, rng'). Inr (deme, picks', rng', pop))"

definition insertDeme_body ::
  "Population \<Rightarrow> int list \<Rightarrow> nat \<Rightarrow> Population \<Rightarrow> fault + Population" where
  "insertDeme_body deme picks i pop =
     fault_bind (vec_at deme (int i)) (\<lambda>d.
     fault_bind (vec_at picks (int i)) (\<lambda>p.
     fault_bind (vec_at pop p) (\<lambda>q.
       if getFitness d < getFitness q then Inr (pop[nat p := d]) else Inr pop)))"

definition insertDeme :: "Population \<Rightarrow> int list \<Rightarrow> Population \<Rightarrow> fault + Population" where
  "insertDeme deme picks pop = for_each [0..<length picks] (insertDeme_body deme picks) pop"

text \<open>
  The scan of \<^verbatim>\<open>insertBestInDeme\<close> carries \<^verbatim>\<open>bestindeme\<close>, \<^verbatim>\<open>worstinpicks\<close>, \<^verbatim>\<open>best\<close>
  and \<^verbatim>\<open>worst\<close>, in this order.
\<close>

definition insertBestInDeme_body ::
  "Population \<Rightarrow> int list \<Rightarrow> Population \<Rightarrow> nat \<Rightarrow> nat \<times> nat \<times> real \<times> real
     \<Rightarrow> fault + (nat \<times> nat \<times> real \<times> real)" where
  "insertBestInDeme_body deme picks pop i st =
     (case st of (bestindeme, worstinpicks, best, worst) \<Rightarrow>
       fault_bind (vec_at deme (int i)) (\<lambda>d.
         let (bestindeme', best') =
               (if getFitness d < best then (i, getFitness d) else (bestindeme, best))
         in fault_bind (vec_at picks (int i)) (\<lambda>p.
            fault_bind (vec_at pop p) (\<lambda>q.
              if getFitness q > worst
              then Inr (bestindeme', i, best', getFitness q)
              else Inr (bestindeme', worstinpicks, best', worst)))))"

definition insertBestInDeme :: "Population \<Rightarrow> int list \<Rightarrow> Population \<Rightarrow> fault + Population" where
  "insertBestInDeme deme picks pop =
     (let Ndeme = length deme
      in fault_bind (vec_at deme 0) (\<lambda>d0.
         fault_bind (vec_at picks 0) (\<lambda>p0.
         fault_bind (vec_at pop p0) (\<lambda>q0.
         fault_bind
           (for_each [1..<Ndeme] (insertBestInDeme_body deme picks pop)
              (0, 0, getFitness d0, getFitness q0))
           (\<lambda>(bestindeme, worstinpicks, best, worst).
              fault_bind (vec_at picks (int worstinpicks)) (\<lambda>p.
              fault_bind (vec_at pop p) (\<lambda>old.
              fault_bind (vec_at deme (int bestindeme)) (\<lambda>b.
                Inr (pop[nat p := b])))))))))"

section \<open>The algorithm \<^verbatim>\<open>sa_corana\<close> (\<^verbatim>\<open>src/algorithm/sa_corana.cpp\<close>)\<close>

subsection \<open>Hyperparameters and constructor\<close>

record sa_corana =
  m_niter :: int
  m_Ts :: real
  m_Tf :: real
  m_niterT :: int
  m_niterR :: int
  m_range :: real

text \<open>
  The three \<^verbatim>\<open>double\<close> hyperparameters are real numbers here, so the constructor is
  modelled on finite values. A NaN, on which every comparison of the guards is false, is
  not among them.
\<close>

definition sa_corana_ctor ::
  "int \<Rightarrow> real \<Rightarrow> real \<Rightarrow> int \<Rightarrow> int \<Rightarrow> real \<Rightarrow> fault + sa_corana" where
  "sa_corana_ctor niter Ts Tf niterT niterR range' =
     (if niter < 0
      then Inl (value_error ''number of iterations must be nonnegative'')
      else if Ts \<le> 0 \<or> Tf \<le> 0 \<or> Ts \<le> Tf
      then Inl (value_error ''temperatures must be positive and Ts must be greater than Tf'')
      else if niterT < 0
      then Inl (value_error
             ''number of iteration before adjusting the temperature must be positive'')
      else if niterR < 0
      then Inl (value_error
             ''number of iteration before adjusting the neighbourhood must be positive'')
      else if range' < 0 \<or> range' > 1
      then Inl (value_error ''Initial range must be between 0 and 1'')
      else Inr \<lparr>m_niter = niter, m_Ts = Ts, m_Tf = Tf, m_niterT = niterT,
                m_niterR = niterR, m_range = range'\<rparr>)"

text \<open>
  The contract of the hyperparameters in the words of the specification: total iteration
  budget greater than 0; start temperature greater than final temperature, both greater
  than 0; both adjustment periods at least 0; initial relative step range in \<open>[0,1]\<close>.
\<close>

definition spec_hyperparameters_ok ::
  "int \<Rightarrow> real \<Rightarrow> real \<Rightarrow> int \<Rightarrow> int \<Rightarrow> real \<Rightarrow> bool" where
  "spec_hyperparameters_ok niter Ts Tf niterT niterR range' \<longleftrightarrow>
     niter > 0 \<and> Ts > Tf \<and> Ts > 0 \<and> Tf > 0 \<and> niterT \<ge> 0 \<and> niterR \<ge> 0
     \<and> 0 \<le> range' \<and> range' \<le> 1"

subsection \<open>Problem and population as \<^verbatim>\<open>evolve\<close> sees them\<close>

text \<open>
  \<^verbatim>\<open>problem::base\<close> is declared outside the sources. \<^verbatim>\<open>evolve\<close> uses its descriptors,
  \<^verbatim>\<open>objfun\<close> and \<^verbatim>\<open>compare_fitness\<close>; they are the fields of the record, so that every
  theorem holds for whatever problem is plugged in.
\<close>

record problem =
  get_dimension :: nat
  get_i_dimension :: nat
  get_c_dimension :: nat
  get_f_dimension :: nat
  get_lb :: "real list"
  get_ub :: "real list"
  objfun :: "real list \<Rightarrow> real list"
  compare_fitness :: "real list \<Rightarrow> real list \<Rightarrow> bool"

record individual_type =
  cur_x :: "real list"
  cur_v :: "real list"
  cur_f :: "real list"

record population =
  pop_problem :: problem
  individuals :: "individual_type list"

text \<open>
  Modelled from the spec: \<^verbatim>\<open>population::get_individual\<close> is called by \<^verbatim>\<open>evolve\<close> and
  defined outside the sources. The specification says that an out-of-range index into a
  population fails synchronously.
\<close>

definition get_individual :: "population \<Rightarrow> nat \<Rightarrow> fault + individual_type" where
  "get_individual pop idx =
     (if idx < length (individuals pop) then Inr (individuals pop ! idx) else Inl index_error)"

text \<open>
  Modelled from the spec: \<^verbatim>\<open>population::set_x\<close> is called by \<^verbatim>\<open>evolve\<close> and defined outside
  the sources. The specification says that the individual's decision vector is overwritten
  with the vector handed over, that a cached fitness is not refreshed by a change of the
  decision vector, and that an out-of-range index fails with no partial mutation.
\<close>

definition set_x :: "population \<Rightarrow> nat \<Rightarrow> real list \<Rightarrow> fault + population" where
  "set_x pop idx x =
     (if idx < length (individuals pop)
      then Inr (pop\<lparr>individuals := (individuals pop)[idx := (individuals pop ! idx)\<lparr>cur_x := x\<rparr>]\<rparr>)
      else Inl index_error)"

text \<open>
  Modelled from the spec: \<^verbatim>\<open>population::set_v\<close> is called by \<^verbatim>\<open>evolve\<close> and defined outside
  the sources. The specification says that the individual's velocity is set to the vector
  handed over, and that an out-of-range index fails with no partial mutation.
\<close>

definition set_v :: "population \<Rightarrow> nat \<Rightarrow> real list \<Rightarrow> fault + population" where
  "set_v pop idx v =
     (if idx < length (individuals pop)
      then Inr (pop\<lparr>individuals := (individuals pop)[idx := (individuals pop ! idx)\<lparr>cur_v := v\<rparr>]\<rparr>)
      else Inl index_error)"

subsection \<open>The outer loop count\<close>

text \<open>Conversion of an \<^verbatim>\<open>int\<close> to \<^verbatim>\<open>size_t\<close> (64 bits).\<close>

definition to_size_t :: "int \<Rightarrow> nat" where
  "to_size_t i = nat (i mod 2 ^ 64)"

text \<open>
  \<^verbatim>\<open>m_niter / (m_niterT * m_niterR * Dc)\<close>: the product of the two \<^verbatim>\<open>int\<close>s is formed first
  (exactly: a signed overflow is undefined and not modelled), converted to \<^verbatim>\<open>size_t\<close> and
  multiplied by \<^verbatim>\<open>Dc\<close> modulo \<open>2^64\<close>; the division is the unsigned one and nothing guards
  it against a zero divisor.
\<close>

definition niterOuter_of :: "sa_corana \<Rightarrow> nat \<Rightarrow> fault + nat" where
  "niterOuter_of a Dc =
     (let divisor = (to_size_t (m_niterT a * m_niterR a) * Dc) mod 2 ^ 64
      in if divisor = 0 then Inl division_by_zero
         else Inr (to_size_t (m_niter a) div divisor))"

subsection \<open>The annealing loops\<close>

text \<open>
  The local variables of \<^verbatim>\<open>evolve\<close> that live across iterations. \<open>draws\<close> is the number of
  values taken from \<^verbatim>\<open>m_drng\<close> so far and \<open>evals\<close> the number of calls of \<^verbatim>\<open>prob.objfun\<close>
  so far; the second is not a variable of the source, it records the calls so that
  statements about them can be made. \<^verbatim>\<open>nter\<close> is declared anew in every sweep, so its
  value before the first sweep is never read.
\<close>

record sa_state =
  xNEW :: "real list"
  xOLD :: "real list"
  fNEW :: "real list"
  fOLD :: "real list"
  Step :: "real list"
  acp :: "int list"
  currentT :: real
  nter :: nat
  draws :: nat
  evals :: nat

definition sa_init :: "sa_corana \<Rightarrow> nat \<Rightarrow> real list \<Rightarrow> real list \<Rightarrow> sa_state" where
  "sa_init a D x0 fit0 =
     \<lparr>xNEW = x0, xOLD = x0, fNEW = fit0, fOLD = fit0,
      Step = replicate D (m_range a), acp = replicate D 0,
      currentT = m_Ts a, nter = 0, draws = 0, evals = 0\<rparr>"

text \<open>\<^verbatim>\<open>size_t nter = (size_t)(m_drng() * Dc);\<close>\<close>

definition sweep_start :: "rng_type \<Rightarrow> nat \<Rightarrow> sa_state \<Rightarrow> sa_state" where
  "sweep_start drng Dc s =
     s\<lparr>nter := nat (int_cast (drng (draws s) * real Dc)), draws := draws s + 1\<rparr>"

text \<open>The three statements of both accepting branches.\<close>

definition accept :: "nat \<Rightarrow> sa_state \<Rightarrow> sa_state" where
  "accept n s =
     s\<lparr>xOLD := (xOLD s)[n := xNEW s ! n], fOLD := fNEW s, acp := (acp s)[n := acp s ! n + 1]\<rparr>"

text \<open>
  The body of the loop over \<^verbatim>\<open>numb\<close>: one move along one dimension. Decision vectors,
  fitness values and the temperature are real numbers, so this is the move on finite
  values; what lines 146 to 162 do when a fitness or the temperature is an infinity or a
  NaN is the subject of \<open>acceptance_test\<close> below.
\<close>

definition sa_move :: "problem \<Rightarrow> rng_type \<Rightarrow> nat \<Rightarrow> sa_state \<Rightarrow> sa_state" where
  "sa_move prob drng Dc s =
     (let n = (nter s + 1) mod Dc;
          r = 2 * drng (draws s) - 1;
          s1 = s\<lparr>nter := n, draws := draws s + 1,
                 xNEW := (xNEW s)[n := xOLD s ! n
                            + r * Step s ! n * (get_ub prob ! n - get_lb prob ! n)]\<rparr>
      in if xNEW s1 ! n > get_ub prob ! n \<or> xNEW s1 ! n < get_lb prob ! n
         then s1\<lparr>xNEW := (xNEW s1)[n := xOLD s1 ! n]\<rparr>
         else
           let s2 = s1\<lparr>fNEW := objfun prob (xNEW s1), evals := evals s1 + 1\<rparr>
           in if compare_fitness prob (fNEW s2) (fOLD s2)
              then accept n s2
              else
                let probab = exp (\<bar>fOLD s2 ! 0 - fNEW s2 ! 0\<bar> / currentT s2);
                    s3 = s2\<lparr>draws := draws s2 + 1\<rparr>
                in if probab > drng (draws s2)
                   then accept n s3
                   else s3\<lparr>xNEW := (xNEW s3)[n := xOLD s3 ! n]\<rparr>)"

text \<open>One full sweep over the continuous dimensions (the body of the loop over \<^verbatim>\<open>kter\<close>).\<close>

definition sa_sweep :: "problem \<Rightarrow> rng_type \<Rightarrow> nat \<Rightarrow> sa_state \<Rightarrow> sa_state" where
  "sa_sweep prob drng Dc s = (sa_move prob drng Dc ^^ Dc) (sweep_start drng Dc s)"

text \<open>The body of the step adjustment loop over \<^verbatim>\<open>iter\<close>.\<close>

definition adjust_step :: "sa_corana \<Rightarrow> nat \<Rightarrow> sa_state \<Rightarrow> sa_state" where
  "adjust_step a iter s =
     (let ratio = real_of_int (acp s ! iter) / real_of_int (m_niterR a);
          st = Step s ! iter;
          st1 = (if ratio > 0.6 then st * (1 + 2 * (ratio - 0.6) / 0.4)
                 else if ratio < 0.4 then st / (1 + 2 * ((0.4 - ratio) / 0.4))
                 else st);
          st2 = (if st1 > m_range a then m_range a else st1)
      in s\<lparr>acp := (acp s)[iter := 0], Step := (Step s)[iter := st2]\<rparr>)"

text \<open>The body of the loop over \<^verbatim>\<open>mter\<close>: \<^verbatim>\<open>m_niterR\<close> sweeps, then the step adjustment.\<close>

definition sa_period :: "sa_corana \<Rightarrow> problem \<Rightarrow> rng_type \<Rightarrow> nat \<Rightarrow> sa_state \<Rightarrow> sa_state" where
  "sa_period a prob drng Dc s =
     fold (adjust_step a) [0..<Dc] ((sa_sweep prob drng Dc ^^ to_size_t (m_niterR a)) s)"

text \<open>\<^verbatim>\<open>currentT *= Tcoeff;\<close>\<close>

definition cooling :: "real \<Rightarrow> sa_state \<Rightarrow> sa_state" where
  "cooling Tcoeff s = s\<lparr>currentT := currentT s * Tcoeff\<rparr>"

text \<open>The body of the loop over \<^verbatim>\<open>jter\<close>: \<^verbatim>\<open>m_niterT\<close> periods, then the cooling.\<close>

definition sa_stage ::
  "sa_corana \<Rightarrow> problem \<Rightarrow> rng_type \<Rightarrow> nat \<Rightarrow> real \<Rightarrow> sa_state \<Rightarrow> sa_state" where
  "sa_stage a prob drng Dc Tcoeff s =
     cooling Tcoeff ((sa_period a prob drng Dc ^^ to_size_t (m_niterT a)) s)"

definition sa_loops ::
  "sa_corana \<Rightarrow> problem \<Rightarrow> rng_type \<Rightarrow> nat \<Rightarrow> real \<Rightarrow> nat \<Rightarrow> sa_state \<Rightarrow> sa_state" where
  "sa_loops a prob drng Dc Tcoeff niterOuter s = (sa_stage a prob drng Dc Tcoeff ^^ niterOuter) s"

text \<open>
  The states a run passes through: the run starts in \<open>s0\<close> and goes on by the four state
  changes the loops are made of.
\<close>

inductive sa_reach ::
  "sa_corana \<Rightarrow> problem \<Rightarrow> rng_type \<Rightarrow> nat \<Rightarrow> real \<Rightarrow> sa_state \<Rightarrow> sa_state \<Rightarrow> bool"
  for a prob drng Dc Tcoeff s0 where
  reach_start: "sa_reach a prob drng Dc Tcoeff s0 s0"
| reach_sweep_start:
    "sa_reach a prob drng Dc Tcoeff s0 s \<Longrightarrow> sa_reach a prob drng Dc Tcoeff s0 (sweep_start drng Dc s)"
| reach_move:
    "sa_reach a prob drng Dc Tcoeff s0 s \<Longrightarrow> sa_reach a prob drng Dc Tcoeff s0 (sa_move prob drng Dc s)"
| reach_adjust:
    "sa_reach a prob drng Dc Tcoeff s0 s \<Longrightarrow> iter < Dc
       \<Longrightarrow> sa_reach a prob drng Dc Tcoeff s0 (adjust_step a iter s)"
| reach_cooling:
    "sa_reach a prob drng Dc Tcoeff s0 s \<Longrightarrow> sa_reach a prob drng Dc Tcoeff s0 (cooling Tcoeff s)"

subsection \<open>\<^verbatim>\<open>evolve\<close>\<close>

text \<open>
  \<^verbatim>\<open>pop.get_best_idx()\<close> is defined outside the sources and is a parameter. \<^verbatim>\<open>m_drng\<close> is
  the sequence \<open>drng\<close> of the values the generator returns during the call. \<^verbatim>\<open>Dc\<close> is a
  difference of unsigned numbers; the base class keeps the integer dimension at most the
  dimension, so the truncating subtraction of \<open>nat\<close> is the same number.
\<close>

definition evolve ::
  "sa_corana \<Rightarrow> rng_type \<Rightarrow> (population \<Rightarrow> nat) \<Rightarrow> population \<Rightarrow> fault + population" where
  "evolve a drng get_best_idx pop =
     (let prob = pop_problem pop;
          D = get_dimension prob;
          prob_i_dimension = get_i_dimension prob;
          prob_c_dimension = get_c_dimension prob;
          prob_f_dimension = get_f_dimension prob;
          Dc = D - prob_i_dimension
      in if Dc = 0
         then Inl (value_error
           ''There is no continuous part in the problem decision vector for sa_corana to optimise'')
         else if prob_c_dimension \<noteq> 0
         then Inl (value_error
           ''The problem is not box constrained and sa_corana is not suitable to solve it'')
         else if prob_f_dimension \<noteq> 1
         then Inl (value_error
           ''The problem is not single objective and sa_corana is not suitable to solve it'')
         else fault_bind (niterOuter_of a Dc) (\<lambda>niterOuter.
           if niterOuter = 0
           then Inl (value_error ''niterOuter is zero, increase niter'')
           else
             let bestidx = get_best_idx pop
             in fault_bind (get_individual pop bestidx) (\<lambda>best.
               let x0 = cur_x best;
                   fit0 = cur_f best;
                   Tcoeff = (m_Tf a / m_Ts a) powr (1 / real niterOuter);
                   s = sa_loops a prob drng Dc Tcoeff niterOuter (sa_init a D x0 fit0)
               in if compare_fitness prob (fOLD s) fit0
                  then fault_bind (set_x pop bestidx (xOLD s)) (\<lambda>pop1.
                       fault_bind (get_individual pop1 bestidx) (\<lambda>cur.
                         set_v pop1 bestidx (map2 (-) (xOLD s) (cur_x cur))))
                  else Inr pop)))"

subsection \<open>The acceptance test on IEEE doubles\<close>

text \<open>
  A \<^verbatim>\<open>double\<close> with its special values. The operations below are those of lines 146 to 162
  (\<^verbatim>\<open>-\<close>, \<^verbatim>\<open>fabs\<close>, \<^verbatim>\<open>/\<close>, \<^verbatim>\<open>exp\<close>, \<^verbatim>\<open>>\<close>), with the results that IEEE 754 gives on infinities
  and NaN. On finite operands they are the operations on real numbers: rounding is not
  modelled, a zero is the positive zero.
\<close>

datatype double = Finite real | PInf | NInf | NaN

fun d_minus :: "double \<Rightarrow> double \<Rightarrow> double" where
  "d_minus NaN b = NaN"
| "d_minus a NaN = NaN"
| "d_minus (Finite x) (Finite y) = Finite (x - y)"
| "d_minus (Finite x) PInf = NInf"
| "d_minus (Finite x) NInf = PInf"
| "d_minus PInf PInf = NaN"
| "d_minus PInf b = PInf"
| "d_minus NInf NInf = NaN"
| "d_minus NInf b = NInf"

fun d_fabs :: "double \<Rightarrow> double" where
  "d_fabs (Finite x) = Finite \<bar>x\<bar>"
| "d_fabs PInf = PInf"
| "d_fabs NInf = PInf"
| "d_fabs NaN = NaN"

fun d_div :: "double \<Rightarrow> double \<Rightarrow> double" where
  "d_div NaN b = NaN"
| "d_div a NaN = NaN"
| "d_div (Finite x) (Finite y) =
     (if y = 0 then (if x = 0 then NaN else if 0 < x then PInf else NInf) else Finite (x / y))"
| "d_div (Finite x) b = Finite 0"
| "d_div PInf (Finite y) = (if 0 \<le> y then PInf else NInf)"
| "d_div NInf (Finite y) = (if 0 \<le> y then NInf else PInf)"
| "d_div a b = NaN"

fun d_exp :: "double \<Rightarrow> double" where
  "d_exp (Finite x) = Finite (exp x)"
| "d_exp PInf = PInf"
| "d_exp NInf = Finite 0"
| "d_exp NaN = NaN"

fun d_gt :: "double \<Rightarrow> double \<Rightarrow> bool" where
  "d_gt NaN b = False"
| "d_gt a NaN = False"
| "d_gt (Finite x) (Finite y) = (y < x)"
| "d_gt (Finite x) NInf = True"
| "d_gt (Finite x) PInf = False"
| "d_gt PInf PInf = False"
| "d_gt PInf b = True"
| "d_gt NInf b = False"


subsection \<open>Predicates used in the statements\<close>

text \<open>A decision vector of the right length, componentwise within \<open>[lb, ub]\<close>.\<close>

definition within_bounds :: "problem \<Rightarrow> real list \<Rightarrow> bool" where
  "within_bounds prob x \<longleftrightarrow>
     length x = get_dimension prob
     \<and> (\<forall>i<get_dimension prob. get_lb prob ! i \<le> x ! i \<and> x ! i \<le> get_ub prob ! i)"

text \<open>
  The objective value of an individual's decision vector, and the best (lowest) one in a
  population.
\<close>

definition objective :: "problem \<Rightarrow> individual_type \<Rightarrow> real" where
  "objective prob ind = objfun prob (cur_x ind) ! 0"

definition best_objective :: "population \<Rightarrow> real" where
  "best_objective pop = Min (set (map (objective (pop_problem pop)) (individuals pop)))"

text \<open>The candidate vector of a move: \<^verbatim>\<open>xNEW\<close> after the perturbation of component \<open>n\<close>.\<close>

definition move_index :: "nat \<Rightarrow> sa_state \<Rightarrow> nat" where
  "move_index Dc s = (nter s + 1) mod Dc"

definition candidate :: "problem \<Rightarrow> rng_type \<Rightarrow> nat \<Rightarrow> sa_state \<Rightarrow> real list" where
  "candidate prob drng Dc s =
     (let n = move_index Dc s
      in (xNEW s)[n := xOLD s ! n
            + (2 * drng (draws s) - 1) * Step s ! n * (get_ub prob ! n - get_lb prob ! n)])"

definition out_of_bounds :: "problem \<Rightarrow> rng_type \<Rightarrow> nat \<Rightarrow> sa_state \<Rightarrow> bool" where
  "out_of_bounds prob drng Dc s \<longleftrightarrow>
     (let n = move_index Dc s
      in candidate prob drng Dc s ! n > get_ub prob ! n
         \<or> candidate prob drng Dc s ! n < get_lb prob ! n)"

text \<open>What it means for the move made in \<open>s\<close> to have been accepted, or reverted, in \<open>s'\<close>.\<close>

definition move_accepted :: "problem \<Rightarrow> rng_type \<Rightarrow> nat \<Rightarrow> sa_state \<Rightarrow> sa_state \<Rightarrow> bool" where
  "move_accepted prob drng Dc s s' \<longleftrightarrow>
     (let n = move_index Dc s; xc = candidate prob drng Dc s
      in xNEW s' = xc \<and> xOLD s' = (xOLD s)[n := xc ! n] \<and> fOLD s' = objfun prob xc
         \<and> acp s' = (acp s)[n := acp s ! n + 1])"

definition move_reverted :: "problem \<Rightarrow> rng_type \<Rightarrow> nat \<Rightarrow> sa_state \<Rightarrow> sa_state \<Rightarrow> bool" where
  "move_reverted prob drng Dc s s' \<longleftrightarrow>
     (let n = move_index Dc s; xc = candidate prob drng Dc s
      in xNEW s' = xc[n := xOLD s ! n] \<and> xOLD s' = xOLD s \<and> fOLD s' = fOLD s
         \<and> acp s' = acp s)"

text \<open>
  The invariant of the run: candidate and current point coincide between moves, the
  current point is within the bounds, and \<^verbatim>\<open>fOLD\<close> is its objective value.
\<close>

definition sa_inv :: "problem \<Rightarrow> sa_state \<Rightarrow> bool" where
  "sa_inv prob s \<longleftrightarrow>
     xNEW s = xOLD s \<and> within_bounds prob (xOLD s) \<and> fOLD s = objfun prob (xOLD s)"

subsection \<open>Concrete data\<close>

text \<open>
  Small inputs on which the definitions are evaluated: an individual of the old population
  class with a one-dimensional decision vector, a generator that returns the same value at
  every call, the sphere function on \<open>[-5, 5]\<close>, an algorithm with one move in its whole
  schedule, and a population of two evaluated individuals.
\<close>

definition ind_of :: "real \<Rightarrow> Individual" where
  "ind_of f = \<lparr>getDecisionVector = [f], getVelocity = [0], getFitness = f\<rparr>"

definition const_rng :: "real \<Rightarrow> rng_type" where
  "const_rng d = (\<lambda>k. d)"

definition sphere :: problem where
  "sphere = \<lparr>get_dimension = 1, get_i_dimension = 0, get_c_dimension = 0, get_f_dimension = 1,
     get_lb = [- 5], get_ub = [5],
     objfun = (\<lambda>x. [\<Sum>v\<leftarrow>x. v * v]),
     compare_fitness = (\<lambda>f g. f ! 0 < g ! 0)\<rparr>"


definition sa_small :: sa_corana where
  "sa_small = \<lparr>m_niter = 1, m_Ts = 10, m_Tf = 1, m_niterT = 1, m_niterR = 1, m_range = 1\<rparr>"

definition pop_small :: population where
  "pop_small = \<lparr>pop_problem = sphere,
           individuals = [\<lparr>cur_x = [1], cur_v = [7], cur_f = [1]\<rparr>,
                          \<lparr>cur_x = [2], cur_v = [7], cur_f = [4]\<rparr>]\<rparr>"

definition first_idx :: "population \<Rightarrow> nat" where
  "first_idx pop = 0"

text \<open>The population \<open>pop_small\<close> as \<^verbatim>\<open>evolve\<close> leaves it with the draws all equal to \<open>9/20\<close>.\<close>

definition pop_small_evolved :: population where
  "pop_small_evolved = \<lparr>pop_problem = sphere,
           individuals = [\<lparr>cur_x = [0], cur_v = [0], cur_f = [1]\<rparr>,
                          \<lparr>cur_x = [2], cur_v = [7], cur_f = [4]\<rparr>]\<rparr>"

text \<open>The state in which the loops start on \<open>pop_small\<close>.\<close>

definition s_first :: sa_state where
  "s_first = sa_init sa_small 1 [1] [1]"

section \<open>Properties of the population operations\<close>

lemma vec_at_in [simp]: "0 \<le> n \<Longrightarrow> n < int (length xs) \<Longrightarrow> vec_at xs n = Inr (xs ! nat n)"
  by (simp add: vec_at_def)

lemma vec_at_out [simp]: "n < 0 \<or> int (length xs) \<le> n \<Longrightarrow> vec_at xs n = Inl out_of_range"
  by (auto simp: vec_at_def)

lemma vec_at_nat [simp]: "i < length xs \<Longrightarrow> vec_at xs (int i) = Inr (xs ! i)"
  by (simp add: vec_at_def)

lemma fault_bind_Inr [simp]: "fault_bind (Inr x) f = f x"
  by (simp add: fault_bind_def)

lemma fault_bind_Inl [simp]: "fault_bind (Inl e) f = Inl e"
  by (simp add: fault_bind_def)

lemma length_erase: "k < length xs \<Longrightarrow> length (erase xs k) = length xs - 1"
  by (simp add: erase_def)

lemma set_erase_subset: "set (erase xs k) \<subseteq> set xs"
  unfolding erase_def using set_take_subset [of k xs] set_drop_subset [of "Suc k" xs] by auto

lemma distinct_erase: "distinct xs \<Longrightarrow> distinct (erase xs k)"
proof -
  assume d: "distinct xs"
  have "xs = take k xs @ drop k xs" by simp
  have "set (take k xs) \<inter> set (drop (Suc k) xs) = {}"
    using d set_drop_subset_set_drop [of k "Suc k" xs] set_take_disj_set_drop_if_distinct [OF d, of k k]
    by auto
  with d show ?thesis by (simp add: erase_def)
qed

lemma nth_notin_erase: "distinct xs \<Longrightarrow> k < length xs \<Longrightarrow> xs ! k \<notin> set (erase xs k)"
proof -
  assume d: "distinct xs" and k: "k < length xs"
  have "xs = take k xs @ xs ! k # drop (Suc k) xs"
    using k by (simp add: id_take_nth_drop [symmetric])
  then have "distinct (take k xs @ xs ! k # drop (Suc k) xs)" using d by simp
  then show ?thesis by (auto simp: erase_def)
qed

lemma int_cast_pick:
  assumes "0 \<le> d" "d < 1" "0 < n"
  shows "0 \<le> int_cast (d * real n) \<and> int_cast (d * real n) < int n"
proof -
  have nn: "0 \<le> d * real n" using assms by simp
  have lt: "d * real n < real n" using assms by simp
  have "\<lfloor>d * real n\<rfloor> < int n" using lt by (simp add: floor_less_iff)
  moreover have "0 \<le> \<lfloor>d * real n\<rfloor>" using nn by simp
  ultimately show ?thesis using nn by (simp add: int_cast_def)
qed

lemma extract_loop_ok:
  assumes "\<forall>k. 0 \<le> rng k \<and> rng k < 1"
    and "k \<le> length PP" and "distinct PP"
    and "\<forall>p\<in>set PP. 0 \<le> p \<and> p < int (length pop)"
  shows "\<exists>new PP' rng'.
           extractRandomDeme_loop k pop (deme, picks, PP, rng)
             = Inr (deme @ map (\<lambda>p. pop ! nat p) new, picks @ new, PP', rng')
         \<and> length new = k \<and> distinct new \<and> set new \<subseteq> set PP"
  using assms
proof (induction k arbitrary: deme picks PP rng)
  case 0
  then show ?case by simp
next
  case (Suc k)
  let ?n = "length PP"
  let ?Pick = "int_cast (rng 0 * real ?n)"
  let ?rng' = "\<lambda>j. rng (Suc j)"
  have n: "0 < ?n" using Suc.prems(2) by (cases PP) auto
  have pick: "0 \<le> ?Pick \<and> ?Pick < int ?n"
    using int_cast_pick [of "rng 0" ?n] Suc.prems(1) n by simp
  then have pk: "nat ?Pick < ?n" by linarith
  let ?p = "PP ! nat ?Pick"
  have pin: "?p \<in> set PP" using pk by simp
  then have prange: "0 \<le> ?p \<and> ?p < int (length pop)" using Suc.prems(4) by blast
  let ?PP' = "erase PP (nat ?Pick)"
  have r': "\<forall>j. 0 \<le> ?rng' j \<and> ?rng' j < 1" using Suc.prems(1) by simp
  have len': "k \<le> length ?PP'" using Suc.prems(2) pk by (simp add: length_erase)
  have d': "distinct ?PP'" using Suc.prems(3) by (rule distinct_erase)
  have sub': "set ?PP' \<subseteq> set PP" by (rule set_erase_subset)
  then have rg': "\<forall>p\<in>set ?PP'. 0 \<le> p \<and> p < int (length pop)" using Suc.prems(4) by blast
  from Suc.IH [OF r' len' d' rg', of "addIndividual (pop ! nat ?p) deme" "picks @ [?p]"]
  obtain new PP'' rng'' where
    run: "extractRandomDeme_loop k pop (addIndividual (pop ! nat ?p) deme, picks @ [?p], ?PP', ?rng')
            = Inr (addIndividual (pop ! nat ?p) deme @ map (\<lambda>p. pop ! nat p) new,
                   (picks @ [?p]) @ new, PP'', rng'')"
    and props: "length new = k" "distinct new" "set new \<subseteq> set ?PP'"
    by blast
  have notin: "?p \<notin> set new"
    using nth_notin_erase [OF Suc.prems(3) pk] props(3) by blast
  have step: "extractRandomDeme_loop (Suc k) pop (deme, picks, PP, rng)
        = extractRandomDeme_loop k pop (addIndividual (pop ! nat ?p) deme, picks @ [?p], ?PP', ?rng')"
    using pick prange by (simp add: nextDouble_def Let_def)
  show ?case
  proof (intro exI conjI)
    show "extractRandomDeme_loop (Suc k) pop (deme, picks, PP, rng)
        = Inr (deme @ map (\<lambda>p. pop ! nat p) (?p # new), picks @ (?p # new), PP'', rng'')"
      using step run by (simp add: addIndividual_def)
    show "length (?p # new) = Suc k" using props(1) by simp
    show "distinct (?p # new)" using props(2) notin by simp
    show "set (?p # new) \<subseteq> set PP" using pin props(3) sub' by auto
  qed
qed

lemma extract_loop_fail:
  assumes "\<forall>k. 0 \<le> rng k \<and> rng k < 1"
    and "length PP < k" and "distinct PP"
    and "\<forall>p\<in>set PP. 0 \<le> p \<and> p < int (length pop)"
  shows "extractRandomDeme_loop k pop (deme, picks, PP, rng) = Inl out_of_range"
  using assms
proof (induction k arbitrary: deme picks PP rng)
  case 0
  then show ?case by simp
next
  case (Suc k)
  show ?case
  proof (cases "PP = []")
    case True
    then show ?thesis by (simp add: nextDouble_def int_cast_def)
  next
    case False
    let ?n = "length PP"
    let ?Pick = "int_cast (rng 0 * real ?n)"
    let ?rng' = "\<lambda>j. rng (Suc j)"
    have n: "0 < ?n" using False by simp
    have pick: "0 \<le> ?Pick \<and> ?Pick < int ?n"
      using int_cast_pick [of "rng 0" ?n] Suc.prems(1) n by simp
    then have pk: "nat ?Pick < ?n" by linarith
    let ?p = "PP ! nat ?Pick"
    have pin: "?p \<in> set PP" using pk by simp
    then have prange: "0 \<le> ?p \<and> ?p < int (length pop)" using Suc.prems(4) by blast
    let ?PP' = "erase PP (nat ?Pick)"
    have r': "\<forall>j. 0 \<le> ?rng' j \<and> ?rng' j < 1" using Suc.prems(1) by simp
    have len': "length ?PP' < k" using Suc.prems(2) pk by (simp add: length_erase)
    have d': "distinct ?PP'" using Suc.prems(3) by (rule distinct_erase)
    have "set ?PP' \<subseteq> set PP" by (rule set_erase_subset)
    then have rg': "\<forall>p\<in>set ?PP'. 0 \<le> p \<and> p < int (length pop)" using Suc.prems(4) by blast
    have step: "extractRandomDeme_loop (Suc k) pop (deme, picks, PP, rng)
        = extractRandomDeme_loop k pop (addIndividual (pop ! nat ?p) deme, picks @ [?p], ?PP', ?rng')"
      using pick prange by (simp add: nextDouble_def Let_def)
    show ?thesis using step Suc.IH [OF r' len' d' rg'] by simp
  qed
qed

lemma erase_filter:
  assumes "distinct xs" "k < length xs"
  shows "erase xs k = filter (\<lambda>q. q \<noteq> xs ! k) xs"
proof -
  have split: "xs = take k xs @ xs ! k # drop (Suc k) xs"
    using assms(2) by (simp add: id_take_nth_drop [symmetric])
  then have d: "distinct (take k xs @ xs ! k # drop (Suc k) xs)" using assms(1) by simp
  then have a: "xs ! k \<notin> set (take k xs)" and b: "xs ! k \<notin> set (drop (Suc k) xs)" by auto
  have fa: "filter (\<lambda>q. q \<noteq> xs ! k) (take k xs) = take k xs"
    using a by (intro filter_True) auto
  have fb: "filter (\<lambda>q. q \<noteq> xs ! k) (drop (Suc k) xs) = drop (Suc k) xs"
    using b by (intro filter_True) auto
  have "filter (\<lambda>q. q \<noteq> xs ! k) xs
          = filter (\<lambda>q. q \<noteq> xs ! k) (take k xs @ xs ! k # drop (Suc k) xs)"
    using split by simp
  also have "\<dots> = take k xs @ drop (Suc k) xs" using fa fb by simp
  finally show ?thesis by (simp add: erase_def)
qed

lemma extract_loop_draws:
  assumes "\<forall>k. 0 \<le> rng k \<and> rng k < 1"
    and "k \<le> length PP" and "distinct PP"
    and "\<forall>p\<in>set PP. 0 \<le> p \<and> p < int (length pop)"
  shows "\<exists>new PP'.
           extractRandomDeme_loop k pop (deme, picks, PP, rng)
             = Inr (deme @ map (\<lambda>p. pop ! nat p) new, picks @ new, PP', \<lambda>j. rng (j + k))
         \<and> length new = k \<and> distinct new \<and> set new \<subseteq> set PP
         \<and> (\<forall>i<k. new ! i =
               filter (\<lambda>q. q \<notin> set (take i new)) PP
                 ! nat \<lfloor>rng i * real (length PP - i)\<rfloor>)"
  using assms
proof (induction k arbitrary: deme picks PP rng)
  case 0
  then show ?case by simp
next
  case (Suc k)
  let ?n = "length PP"
  let ?Pick = "int_cast (rng 0 * real ?n)"
  let ?rng' = "\<lambda>j. rng (Suc j)"
  have n: "0 < ?n" using Suc.prems(2) by (cases PP) auto
  have pick: "0 \<le> ?Pick \<and> ?Pick < int ?n"
    using int_cast_pick [of "rng 0" ?n] Suc.prems(1) n by simp
  then have pk: "nat ?Pick < ?n" by linarith
  have "0 \<le> rng 0 * real ?n" using Suc.prems(1) by simp
  then have fl: "?Pick = \<lfloor>rng 0 * real ?n\<rfloor>" by (simp add: int_cast_def)
  let ?p = "PP ! nat ?Pick"
  have pin: "?p \<in> set PP" using pk by simp
  then have prange: "0 \<le> ?p \<and> ?p < int (length pop)" using Suc.prems(4) by blast
  let ?PP' = "erase PP (nat ?Pick)"
  have ef: "?PP' = filter (\<lambda>q. q \<noteq> ?p) PP" by (rule erase_filter [OF Suc.prems(3) pk])
  have r': "\<forall>j. 0 \<le> ?rng' j \<and> ?rng' j < 1" using Suc.prems(1) by simp
  have lenP: "length ?PP' = ?n - 1" using pk by (simp add: length_erase)
  have len': "k \<le> length ?PP'" using Suc.prems(2) lenP by simp
  have d': "distinct ?PP'" using Suc.prems(3) by (rule distinct_erase)
  have sub': "set ?PP' \<subseteq> set PP" by (rule set_erase_subset)
  then have rg': "\<forall>p\<in>set ?PP'. 0 \<le> p \<and> p < int (length pop)" using Suc.prems(4) by blast
  from Suc.IH [OF r' len' d' rg', of "addIndividual (pop ! nat ?p) deme" "picks @ [?p]"]
  obtain new PP'' where
    run: "extractRandomDeme_loop k pop (addIndividual (pop ! nat ?p) deme, picks @ [?p], ?PP', ?rng')
            = Inr (addIndividual (pop ! nat ?p) deme @ map (\<lambda>p. pop ! nat p) new,
                   (picks @ [?p]) @ new, PP'', \<lambda>j. ?rng' (j + k))"
    and props: "length new = k" "distinct new" "set new \<subseteq> set ?PP'"
    and draws: "\<forall>i<k. new ! i =
               filter (\<lambda>q. q \<notin> set (take i new)) ?PP'
                 ! nat \<lfloor>?rng' i * real (length ?PP' - i)\<rfloor>"
    by blast
  have notin: "?p \<notin> set new"
    using nth_notin_erase [OF Suc.prems(3) pk] props(3) by blast
  have step: "extractRandomDeme_loop (Suc k) pop (deme, picks, PP, rng)
        = extractRandomDeme_loop k pop (addIndividual (pop ! nat ?p) deme, picks @ [?p], ?PP', ?rng')"
    using pick prange by (simp add: nextDouble_def Let_def)
  have each: "\<forall>i<Suc k. (?p # new) ! i =
               filter (\<lambda>q. q \<notin> set (take i (?p # new))) PP
                 ! nat \<lfloor>rng i * real (length PP - i)\<rfloor>"
  proof (intro allI impI)
    fix i assume i: "i < Suc k"
    show "(?p # new) ! i =
               filter (\<lambda>q. q \<notin> set (take i (?p # new))) PP
                 ! nat \<lfloor>rng i * real (length PP - i)\<rfloor>"
    proof (cases i)
      case 0
      then show ?thesis using fl by simp
    next
      case (Suc i')
      then have i': "i' < k" using i by simp
      have "filter (\<lambda>q. q \<notin> set (take i' new)) ?PP'
              = filter (\<lambda>q. q \<notin> set (take i (?p # new))) PP"
        unfolding ef Suc by (simp add: conj_commute)
      moreover have "length ?PP' - i' = length PP - i" using lenP Suc by simp
      ultimately show ?thesis using draws [rule_format, OF i'] Suc by simp
    qed
  qed
  show ?case
  proof (intro exI conjI)
    show "extractRandomDeme_loop (Suc k) pop (deme, picks, PP, rng)
        = Inr (deme @ map (\<lambda>p. pop ! nat p) (?p # new), picks @ (?p # new), PP'',
               \<lambda>j. rng (j + Suc k))"
      using step run by (simp add: addIndividual_def)
    show "length (?p # new) = Suc k" using props(1) by simp
    show "distinct (?p # new)" using props(2) notin by simp
    show "set (?p # new) \<subseteq> set PP" using pin props(3) sub' by auto
    show "\<forall>i<Suc k. (?p # new) ! i =
               filter (\<lambda>q. q \<notin> set (take i (?p # new))) PP
                 ! nat \<lfloor>rng i * real (length PP - i)\<rfloor>"
      by (rule each)
  qed
qed

lemma for_each_append:
  "for_each (xs @ ys) f s = fault_bind (for_each xs f s) (for_each ys f)"
  by (induction xs arbitrary: s) (auto simp: fault_bind_def split: sum.splits)

lemma for_each_cong:
  "(\<And>i s. i \<in> set xs \<Longrightarrow> f i s = g i s) \<Longrightarrow> for_each xs f s = for_each xs g s"
  by (induction xs arbitrary: s) (auto simp: fault_bind_def split: sum.splits)

lemma insertDeme_body_eval:
  assumes "i < length deme" "i < length picks" "0 \<le> picks ! i" "picks ! i < int (length pop)"
  shows "insertDeme_body deme picks i pop =
           Inr (if getFitness (deme ! i) < getFitness (pop ! nat (picks ! i))
                then pop[nat (picks ! i) := deme ! i] else pop)"
  using assms by (simp add: insertDeme_body_def)

lemma insertDeme_prefix:
  assumes "k \<le> length picks" "length picks \<le> length deme"
    and "\<forall>p\<in>set picks. 0 \<le> p \<and> p < int (length pop)"
  shows "\<exists>q. for_each [0..<k] (insertDeme_body deme picks) pop = Inr q
           \<and> length q = length pop
           \<and> (\<forall>j<length pop. getFitness (q ! j) \<le> getFitness (pop ! j))
           \<and> (\<forall>j<length pop. int j \<notin> set (take k picks) \<longrightarrow> q ! j = pop ! j)
           \<and> (distinct picks \<longrightarrow> (\<forall>i<k. q ! nat (picks ! i) =
                 (if getFitness (deme ! i) < getFitness (pop ! nat (picks ! i))
                  then deme ! i else pop ! nat (picks ! i))))"
  using assms(1)
proof (induction k)
  case 0
  then show ?case by simp
next
  case (Suc k)
  then have k: "k < length picks" by simp
  from Suc obtain q where
    run: "for_each [0..<k] (insertDeme_body deme picks) pop = Inr q"
    and len: "length q = length pop"
    and le: "\<forall>j<length pop. getFitness (q ! j) \<le> getFitness (pop ! j)"
    and out: "\<forall>j<length pop. int j \<notin> set (take k picks) \<longrightarrow> q ! j = pop ! j"
    and dist: "distinct picks \<longrightarrow> (\<forall>i<k. q ! nat (picks ! i) =
                 (if getFitness (deme ! i) < getFitness (pop ! nat (picks ! i))
                  then deme ! i else pop ! nat (picks ! i)))"
    by auto
  let ?p = "picks ! k"
  have pr: "0 \<le> ?p \<and> ?p < int (length pop)" using assms(3) k by simp
  then have np: "nat ?p < length pop" by linarith
  let ?q' = "if getFitness (deme ! k) < getFitness (q ! nat ?p) then q[nat ?p := deme ! k] else q"
  have body: "insertDeme_body deme picks k q = Inr ?q'"
    using insertDeme_body_eval [of k deme picks q] k assms(2) pr len by simp
  have run': "for_each [0..<Suc k] (insertDeme_body deme picks) pop = Inr ?q'"
    using run body by (simp add: for_each_append)
  have tk: "take (Suc k) picks = take k picks @ [?p]"
    using k by (simp add: take_Suc_conv_app_nth)
  have le': "\<forall>j<length pop. getFitness (?q' ! j) \<le> getFitness (pop ! j)"
  proof (intro allI impI)
    fix j assume j: "j < length pop"
    show "getFitness (?q' ! j) \<le> getFitness (pop ! j)"
    proof (cases "j = nat ?p \<and> getFitness (deme ! k) < getFitness (q ! nat ?p)")
      case True
      then have "?q' ! j = deme ! k" using np len by simp
      then show ?thesis using True le j by force
    next
      case False
      then have "?q' ! j = q ! j" by auto
      then show ?thesis using le j by simp
    qed
  qed
  have out': "\<forall>j<length pop. int j \<notin> set (take (Suc k) picks) \<longrightarrow> ?q' ! j = pop ! j"
  proof (intro allI impI)
    fix j assume j: "j < length pop" and nin: "int j \<notin> set (take (Suc k) picks)"
    then have "int j \<noteq> ?p" and "int j \<notin> set (take k picks)" using tk by auto
    then have "j \<noteq> nat ?p" using pr by auto
    then have "?q' ! j = q ! j" by simp
    then show "?q' ! j = pop ! j" using out j \<open>int j \<notin> set (take k picks)\<close> by simp
  qed
  have dist': "distinct picks \<longrightarrow> (\<forall>i<Suc k. ?q' ! nat (picks ! i) =
                 (if getFitness (deme ! i) < getFitness (pop ! nat (picks ! i))
                  then deme ! i else pop ! nat (picks ! i)))"
  proof (intro allI impI)
    fix i assume d: "distinct picks" and i: "i < Suc k"
    show "?q' ! nat (picks ! i) =
                 (if getFitness (deme ! i) < getFitness (pop ! nat (picks ! i))
                  then deme ! i else pop ! nat (picks ! i))"
    proof (cases "i = k")
      case True
      have "?p \<notin> set (take k picks)"
        using d k tk by (metis distinct_take distinct_append distinct.simps(2) disjoint_iff list.set_intros(1) not_distinct_conv_prefix)
      then have "int (nat ?p) \<notin> set (take k picks)" using pr by simp
      then have "q ! nat ?p = pop ! nat ?p" using out np by blast
      then show ?thesis using True np len by simp
    next
      case False
      then have ik: "i < k" using i by simp
      then have "picks ! i \<noteq> ?p" using d k by (simp add: nth_eq_iff_index_eq)
      moreover have "0 \<le> picks ! i" using assms(3) ik k by simp
      ultimately have "nat (picks ! i) \<noteq> nat ?p" using pr by auto
      then have "?q' ! nat (picks ! i) = q ! nat (picks ! i)" by simp
      then show ?thesis using dist d ik by simp
    qed
  qed
  show ?case using run' len le' out' dist' by (intro exI [of _ ?q']) simp
qed

lemma insertDeme_body_take:
  assumes "i < m"
  shows "insertDeme_body (take m deme) (take m picks) i pop = insertDeme_body deme picks i pop"
  using assms by (simp add: insertDeme_body_def vec_at_def)

lemma insertDeme_take:
  assumes "k \<le> length picks"
  shows "insertDeme (take k deme) (take k picks) pop
           = for_each [0..<k] (insertDeme_body deme picks) pop"
proof -
  have "length (take k picks) = k" using assms by simp
  then have "insertDeme (take k deme) (take k picks) pop
      = for_each [0..<k] (insertDeme_body (take k deme) (take k picks)) pop"
    by (simp add: insertDeme_def)
  also have "\<dots> = for_each [0..<k] (insertDeme_body deme picks) pop"
    by (rule for_each_cong) (simp add: insertDeme_body_take)
  finally show ?thesis .
qed

text \<open>
  Claim C5. For a population of size \<open>S\<close>, a generator whose values lie in \<open>[0,1)\<close> and
  \<open>0 \<le> N \<le> S\<close>, \<^verbatim>\<open>extractRandomDeme(N, picks, rng)\<close> returns a deme of exactly \<open>N\<close>
  individuals and appends to \<^verbatim>\<open>picks\<close> exactly \<open>N\<close> pairwise distinct indices of \<open>[0,S)\<close>, in
  the order in which they are drawn: the \<open>i\<close>-th appended index is the one that the \<open>i\<close>-th
  value \<open>d\<close> of the generator selects, at position \<open>\<lfloor>d * (S - i)\<rfloor>\<close>, from the indices not
  drawn before, kept in ascending order; the generator comes back advanced by exactly \<open>N\<close>
  values. The \<open>i\<close>-th member of the deme is the individual at position \<open>picks[i]\<close> of the
  population at the time of the call, and the population itself is unchanged.
\<close>

theorem extractRandomDeme_correct:
  assumes "\<forall>k. 0 \<le> rng k \<and> rng k < 1" and "0 \<le> N" and "N \<le> int (length pop)"
  shows "\<exists>deme new.
           extractRandomDeme N picks rng pop
             = Inr (deme, picks @ new, (\<lambda>j. rng (j + nat N)), pop)
         \<and> length deme = nat N \<and> length new = nat N \<and> distinct new
         \<and> (\<forall>p\<in>set new. 0 \<le> p \<and> p < int (length pop))
         \<and> (\<forall>i<nat N. deme ! i = pop ! nat (new ! i))
         \<and> (\<forall>i<nat N. new ! i =
               filter (\<lambda>q. q \<notin> set (take i new)) (map int [0..<length pop])
                 ! nat \<lfloor>rng i * real (length pop - i)\<rfloor>)"
proof -
  let ?PP = "map int [0..<length pop]"
  have len: "nat N \<le> length ?PP" using assms(2,3) by simp
  have d: "distinct ?PP" by (simp add: distinct_map)
  have rg: "\<forall>p\<in>set ?PP. 0 \<le> p \<and> p < int (length pop)" by auto
  from extract_loop_draws [OF assms(1) len d rg, of "[]" picks]
  obtain new PP' where
    run: "extractRandomDeme_loop (nat N) pop ([], picks, ?PP, rng)
            = Inr ([] @ map (\<lambda>p. pop ! nat p) new, picks @ new, PP', \<lambda>j. rng (j + nat N))"
    and props: "length new = nat N" "distinct new" "set new \<subseteq> set ?PP"
    and draws: "\<forall>i<nat N. new ! i =
               filter (\<lambda>q. q \<notin> set (take i new)) ?PP
                 ! nat \<lfloor>rng i * real (length ?PP - i)\<rfloor>"
    by blast
  have res: "extractRandomDeme N picks rng pop
          = Inr (map (\<lambda>p. pop ! nat p) new, picks @ new, (\<lambda>j. rng (j + nat N)), pop)"
    using run by (simp add: extractRandomDeme_def)
  have inr: "\<forall>p\<in>set new. 0 \<le> p \<and> p < int (length pop)" using props(3) rg by blast
  have nth: "\<forall>i<nat N. map (\<lambda>p. pop ! nat p) new ! i = pop ! nat (new ! i)"
    using props(1) by simp
  have draws': "\<forall>i<nat N. new ! i =
               filter (\<lambda>q. q \<notin> set (take i new)) (map int [0..<length pop])
                 ! nat \<lfloor>rng i * real (length pop - i)\<rfloor>"
    using draws by simp
  show ?thesis
    using res props(1,2) inr nth draws'
    by (intro exI [of _ "map (\<lambda>p. pop ! nat p) new"] exI [of _ new]) simp
qed

text \<open>
  The statement of C5 at a population of two, \<open>N = 2\<close>, a caller's list that already
  holds an entry, and the generator that always returns \<open>9/10\<close>: the indices come out as
  \<open>1\<close>, then \<open>0\<close>.
\<close>

theorem extractRandomDeme_correct_witness:
  "(\<forall>k. 0 \<le> const_rng (9/10) k \<and> const_rng (9/10) k < 1) \<and> (0::int) \<le> 2
     \<and> (2::int) \<le> int (length [ind_of 5, ind_of 7])
     \<and> extractRandomDeme 2 [4] (const_rng (9/10)) [ind_of 5, ind_of 7]
          = Inr ([ind_of 7, ind_of 5], [4, 1, 0], const_rng (9/10), [ind_of 5, ind_of 7])"
proof -
  let ?pop = "[ind_of 5, ind_of 7]" and ?rng = "const_rng (9/10)"
  have h1: "\<forall>k. 0 \<le> ?rng k \<and> ?rng k < 1" by (simp add: const_rng_def)
  have h2: "(0::int) \<le> 2" and h3: "(2::int) \<le> int (length ?pop)" by simp_all
  from extractRandomDeme_correct [OF h1 h2 h3, of "[4]"]
  obtain deme new where
    run: "extractRandomDeme 2 [4] ?rng ?pop = Inr (deme, [4] @ new, (\<lambda>j. ?rng (j + nat 2)), ?pop)"
    and ld: "length deme = nat 2" and ln: "length new = nat 2"
    and nth: "\<forall>i<nat 2. deme ! i = ?pop ! nat (new ! i)"
    and draws: "\<forall>i<nat 2. new ! i =
               filter (\<lambda>q. q \<notin> set (take i new)) (map int [0..<length ?pop])
                 ! nat \<lfloor>?rng i * real (length ?pop - i)\<rfloor>"
    by blast
  from ln obtain a b where ab: "new = [a, b]"
    by (cases new; cases "tl new"; cases "tl (tl new)") auto
  have a: "a = 1" using draws [rule_format, of 0] ab by (simp add: const_rng_def upt_rec)
  have b: "b = 0" using draws [rule_format, of 1] ab a by (simp add: const_rng_def upt_rec)
  from ld obtain x y where xy: "deme = [x, y]"
    by (cases deme; cases "tl deme"; cases "tl (tl deme)") auto
  have x: "x = ind_of 7" using nth [rule_format, of 0] xy ab a by simp
  have y: "y = ind_of 5" using nth [rule_format, of 1] xy ab b by simp
  have r: "(\<lambda>j. ?rng (j + nat 2)) = ?rng" by (simp add: const_rng_def)
  show ?thesis using run ab a b xy x y r h1 by simp
qed

text \<open>
  Claim C6. For a deme and a list of in-range picks of the same length, \<^verbatim>\<open>insertDeme\<close>
  replaces \<open>pop[picks[k]]\<close> with \<open>deme[k]\<close> at step \<open>k\<close> exactly when the fitness of \<open>deme[k]\<close>
  is strictly below the fitness of the individual then at \<open>pop[picks[k]]\<close>, and leaves the
  population as it is otherwise (the run over the first \<open>k + 1\<close> entries is the run over the
  first \<open>k\<close> followed by that step). Consequently no position holds, after the call, a
  fitness above its value before the call; positions that are not picked are untouched; and
  when the picks are pairwise distinct, each \<open>pop[picks[i]]\<close> ends as \<open>deme[i]\<close> or as it was,
  according to the comparison with its value before the call.
\<close>

theorem insertDeme_correct:
  assumes "length deme = length picks"
    and "\<forall>p\<in>set picks. 0 \<le> p \<and> p < int (length pop)"
  shows "\<exists>pop'. insertDeme deme picks pop = Inr pop'
           \<and> length pop' = length pop
           \<and> (\<forall>k<length picks. \<exists>q.
                 insertDeme (take k deme) (take k picks) pop = Inr q
               \<and> insertDeme (take (Suc k) deme) (take (Suc k) picks) pop =
                   Inr (if getFitness (deme ! k) < getFitness (q ! nat (picks ! k))
                        then q[nat (picks ! k) := deme ! k] else q))
           \<and> (\<forall>j<length pop. getFitness (pop' ! j) \<le> getFitness (pop ! j))
           \<and> (\<forall>j<length pop. int j \<notin> set picks \<longrightarrow> pop' ! j = pop ! j)
           \<and> (distinct picks \<longrightarrow> (\<forall>i<length picks. pop' ! nat (picks ! i) =
                 (if getFitness (deme ! i) < getFitness (pop ! nat (picks ! i))
                  then deme ! i else pop ! nat (picks ! i))))"
proof -
  have ld: "length picks \<le> length deme" using assms(1) by simp
  from insertDeme_prefix [OF le_refl ld assms(2)]
  obtain pop' where
    run: "insertDeme deme picks pop = Inr pop'"
    and rest: "length pop' = length pop"
      "\<forall>j<length pop. getFitness (pop' ! j) \<le> getFitness (pop ! j)"
      "\<forall>j<length pop. int j \<notin> set picks \<longrightarrow> pop' ! j = pop ! j"
      "distinct picks \<longrightarrow> (\<forall>i<length picks. pop' ! nat (picks ! i) =
                 (if getFitness (deme ! i) < getFitness (pop ! nat (picks ! i))
                  then deme ! i else pop ! nat (picks ! i)))"
    unfolding insertDeme_def by auto
  have seq: "\<forall>k<length picks. \<exists>q.
                 insertDeme (take k deme) (take k picks) pop = Inr q
               \<and> insertDeme (take (Suc k) deme) (take (Suc k) picks) pop =
                   Inr (if getFitness (deme ! k) < getFitness (q ! nat (picks ! k))
                        then q[nat (picks ! k) := deme ! k] else q)"
  proof (intro allI impI)
    fix k assume k: "k < length picks"
    then have kle: "k \<le> length picks" and skle: "Suc k \<le> length picks" by simp_all
    from insertDeme_prefix [OF kle ld assms(2)]
    obtain q where q: "for_each [0..<k] (insertDeme_body deme picks) pop = Inr q"
      and lq: "length q = length pop" by blast
    have pr: "0 \<le> picks ! k \<and> picks ! k < int (length q)" using assms(2) k lq by simp
    have body: "insertDeme_body deme picks k q =
        Inr (if getFitness (deme ! k) < getFitness (q ! nat (picks ! k))
             then q[nat (picks ! k) := deme ! k] else q)"
      using insertDeme_body_eval [of k deme picks q] k assms(1) pr by simp
    have "insertDeme (take (Suc k) deme) (take (Suc k) picks) pop
            = for_each [0..<Suc k] (insertDeme_body deme picks) pop"
      by (rule insertDeme_take [OF skle])
    also have "\<dots> = insertDeme_body deme picks k q"
      using q body by (simp add: for_each_append)
    finally show "\<exists>q.
                 insertDeme (take k deme) (take k picks) pop = Inr q
               \<and> insertDeme (take (Suc k) deme) (take (Suc k) picks) pop =
                   Inr (if getFitness (deme ! k) < getFitness (q ! nat (picks ! k))
                        then q[nat (picks ! k) := deme ! k] else q)"
      using q body insertDeme_take [OF kle] by (intro exI [of _ q]) simp
  qed
  show ?thesis using run rest seq by (intro exI [of _ pop']) simp
qed

text \<open>
  The statement of C6 at a population of two and a deme whose first member improves on
  its target and whose second does not.
\<close>

theorem insertDeme_correct_witness:
  "length [ind_of 1, ind_of 9] = length [1, 0::int]
   \<and> distinct [1, 0::int]
   \<and> insertDeme [ind_of 1, ind_of 9] [1, 0] [ind_of 5, ind_of 7] = Inr [ind_of 5, ind_of 1]"
proof -
  let ?deme = "[ind_of 1, ind_of 9]" and ?picks = "[1, 0::int]" and ?pop = "[ind_of 5, ind_of 7]"
  have h1: "length ?deme = length ?picks" by simp
  have h2: "\<forall>p\<in>set ?picks. 0 \<le> p \<and> p < int (length ?pop)" by simp
  have h3: "distinct ?picks" by simp
  from insertDeme_correct [OF h1 h2]
  obtain pop' where run: "insertDeme ?deme ?picks ?pop = Inr pop'"
    and len: "length pop' = length ?pop"
    and d: "distinct ?picks \<longrightarrow> (\<forall>i<length ?picks. pop' ! nat (?picks ! i) =
                 (if getFitness (?deme ! i) < getFitness (?pop ! nat (?picks ! i))
                  then ?deme ! i else ?pop ! nat (?picks ! i)))"
    by blast
  have "pop' ! 1 = ind_of 1"
    using d [rule_format, OF h3, of 0] by (simp add: ind_of_def)
  moreover have "pop' ! 0 = ind_of 5"
    using d [rule_format, OF h3, of 1] by (simp add: ind_of_def)
  moreover from len obtain a b where "pop' = [a, b]"
    by (cases pop'; cases "tl pop'"; cases "tl (tl pop')") auto
  ultimately have "pop' = [ind_of 5, ind_of 1]" by simp
  then show ?thesis using run h1 h2 h3 by simp
qed

lemma insertBestInDeme_body_eval:
  assumes "i < length deme" "i < length picks" "0 \<le> picks ! i" "picks ! i < int (length pop)"
  shows "insertBestInDeme_body deme picks pop i (b, w, best, worst) =
           Inr (if getFitness (deme ! i) < best then i else b,
                if getFitness (pop ! nat (picks ! i)) > worst then i else w,
                if getFitness (deme ! i) < best then getFitness (deme ! i) else best,
                if getFitness (pop ! nat (picks ! i)) > worst
                then getFitness (pop ! nat (picks ! i)) else worst)"
  using assms by (simp add: insertBestInDeme_body_def)

lemma insertBestInDeme_scan:
  assumes "Suc m \<le> length deme" "length picks = length deme"
    and "\<forall>p\<in>set picks. 0 \<le> p \<and> p < int (length pop)"
  shows "\<exists>b w. for_each [1..<Suc m] (insertBestInDeme_body deme picks pop)
                 (0, 0, getFitness (deme ! 0), getFitness (pop ! nat (picks ! 0)))
               = Inr (b, w, getFitness (deme ! b), getFitness (pop ! nat (picks ! w)))
           \<and> b \<le> m \<and> w \<le> m
           \<and> (\<forall>i\<le>m. getFitness (deme ! b) \<le> getFitness (deme ! i))
           \<and> (\<forall>i<b. getFitness (deme ! b) < getFitness (deme ! i))
           \<and> (\<forall>i\<le>m. getFitness (pop ! nat (picks ! i)) \<le> getFitness (pop ! nat (picks ! w)))
           \<and> (\<forall>i<w. getFitness (pop ! nat (picks ! i)) < getFitness (pop ! nat (picks ! w)))"
  using assms(1)
proof (induction m)
  case 0
  then show ?case by simp
next
  case (Suc m)
  let ?fd = "\<lambda>i. getFitness (deme ! i)"
  let ?fp = "\<lambda>i. getFitness (pop ! nat (picks ! i))"
  from Suc obtain b w where
    run: "for_each [1..<Suc m] (insertBestInDeme_body deme picks pop)
                 (0, 0, ?fd 0, ?fp 0) = Inr (b, w, ?fd b, ?fp w)"
    and bw: "b \<le> m" "w \<le> m"
    and bmin: "\<forall>i\<le>m. ?fd b \<le> ?fd i" and bfirst: "\<forall>i<b. ?fd b < ?fd i"
    and wmax: "\<forall>i\<le>m. ?fp i \<le> ?fp w" and wfirst: "\<forall>i<w. ?fp i < ?fp w"
    by auto
  let ?i = "Suc m"
  have i: "?i < length deme" "?i < length picks" using Suc.prems assms(2) by simp_all
  have pr: "0 \<le> picks ! ?i" "picks ! ?i < int (length pop)" using assms(3) i(2) by simp_all
  let ?b' = "if ?fd ?i < ?fd b then ?i else b"
  let ?w' = "if ?fp ?i > ?fp w then ?i else w"
  have body: "insertBestInDeme_body deme picks pop ?i (b, w, ?fd b, ?fp w)
                = Inr (?b', ?w', ?fd ?b', ?fp ?w')"
    using insertBestInDeme_body_eval [OF i pr, of b w "?fd b" "?fp w"] by simp
  have run': "for_each [1..<Suc ?i] (insertBestInDeme_body deme picks pop)
                 (0, 0, ?fd 0, ?fp 0) = Inr (?b', ?w', ?fd ?b', ?fp ?w')"
    using run body by (simp add: for_each_append)
  have b1: "?b' \<le> ?i" and w1: "?w' \<le> ?i" using bw by simp_all
  have b2: "\<forall>j\<le>?i. ?fd ?b' \<le> ?fd j"
  proof (intro allI impI)
    fix j assume "j \<le> ?i"
    then consider "j \<le> m" | "j = ?i" by linarith
    then show "?fd ?b' \<le> ?fd j"
    proof cases
      case 1
      then have "?fd b \<le> ?fd j" using bmin by simp
      then show ?thesis by simp
    next
      case 2
      then show ?thesis by simp
    qed
  qed
  have b3: "\<forall>j<?b'. ?fd ?b' < ?fd j"
  proof (intro allI impI)
    fix j assume j: "j < ?b'"
    show "?fd ?b' < ?fd j"
    proof (cases "?fd ?i < ?fd b")
      case True
      then have "j \<le> m" using j by simp
      then have "?fd b \<le> ?fd j" using bmin by simp
      then show ?thesis using True by simp
    next
      case False
      then show ?thesis using j bfirst by simp
    qed
  qed
  have w2: "\<forall>j\<le>?i. ?fp j \<le> ?fp ?w'"
  proof (intro allI impI)
    fix j assume "j \<le> ?i"
    then consider "j \<le> m" | "j = ?i" by linarith
    then show "?fp j \<le> ?fp ?w'"
    proof cases
      case 1
      then have "?fp j \<le> ?fp w" using wmax by simp
      then show ?thesis by simp
    next
      case 2
      then show ?thesis by simp
    qed
  qed
  have w3: "\<forall>j<?w'. ?fp j < ?fp ?w'"
  proof (intro allI impI)
    fix j assume j: "j < ?w'"
    show "?fp j < ?fp ?w'"
    proof (cases "?fp ?i > ?fp w")
      case True
      then have "j \<le> m" using j by simp
      then have "?fp j \<le> ?fp w" using wmax by simp
      then show ?thesis using True by simp
    next
      case False
      then show ?thesis using j wfirst by simp
    qed
  qed
  show ?case
    using run' b1 w1 b2 b3 w2 w3 by (intro exI [of _ ?b'] exI [of _ ?w'] conjI)
qed

text \<open>
  Claim C7. For a non-empty deme and pairwise distinct in-range picks of the same length,
  \<^verbatim>\<open>insertBestInDeme\<close> writes exactly one position: \<open>picks[w]\<close>, where \<open>w\<close> is the first index at
  which the fitness of \<open>pop[picks[i]]\<close> is maximal (worst) among the picks, and the individual
  written is \<open>deme[b]\<close>, where \<open>b\<close> is the first index at which the fitness in the deme is
  minimal (best). Every other picked position, and every other position of the population,
  keeps its individual.
\<close>

theorem insertBestInDeme_correct:
  assumes "deme \<noteq> []" and "length picks = length deme" and "distinct picks"
    and "\<forall>p\<in>set picks. 0 \<le> p \<and> p < int (length pop)"
  shows "\<exists>b w. b < length deme \<and> w < length picks
           \<and> insertBestInDeme deme picks pop = Inr (pop[nat (picks ! w) := deme ! b])
           \<and> (\<forall>i<length deme. getFitness (deme ! b) \<le> getFitness (deme ! i))
           \<and> (\<forall>i<b. getFitness (deme ! b) < getFitness (deme ! i))
           \<and> (\<forall>i<length picks. getFitness (pop ! nat (picks ! i))
                                  \<le> getFitness (pop ! nat (picks ! w)))
           \<and> (\<forall>i<w. getFitness (pop ! nat (picks ! i)) < getFitness (pop ! nat (picks ! w)))
           \<and> pop[nat (picks ! w) := deme ! b] ! nat (picks ! w) = deme ! b
           \<and> (\<forall>i<length picks. i \<noteq> w \<longrightarrow>
                 pop[nat (picks ! w) := deme ! b] ! nat (picks ! i) = pop ! nat (picks ! i))
           \<and> (\<forall>j<length pop. j \<noteq> nat (picks ! w) \<longrightarrow>
                 pop[nat (picks ! w) := deme ! b] ! j = pop ! j)
           \<and> (\<forall>j<length pop. pop[nat (picks ! w) := deme ! b] ! j \<noteq> pop ! j \<longleftrightarrow>
                 j = nat (picks ! w) \<and> deme ! b \<noteq> pop ! nat (picks ! w))"
proof -
  obtain m where m: "length deme = Suc m" using assms(1) by (cases deme) auto
  then have sm: "Suc m \<le> length deme" by simp
  from insertBestInDeme_scan [OF sm assms(2,4)]
  obtain b w where
    run: "for_each [1..<Suc m] (insertBestInDeme_body deme picks pop)
                 (0, 0, getFitness (deme ! 0), getFitness (pop ! nat (picks ! 0)))
               = Inr (b, w, getFitness (deme ! b), getFitness (pop ! nat (picks ! w)))"
    and bw: "b \<le> m" "w \<le> m"
    and ext: "\<forall>i\<le>m. getFitness (deme ! b) \<le> getFitness (deme ! i)"
      "\<forall>i<b. getFitness (deme ! b) < getFitness (deme ! i)"
      "\<forall>i\<le>m. getFitness (pop ! nat (picks ! i)) \<le> getFitness (pop ! nat (picks ! w))"
      "\<forall>i<w. getFitness (pop ! nat (picks ! i)) < getFitness (pop ! nat (picks ! w))"
    by blast
  have b: "b < length deme" and w: "w < length picks" using bw m assms(2) by simp_all
  have p0: "0 \<le> picks ! 0 \<and> picks ! 0 < int (length pop)" using assms(2,4) m by simp
  have pw: "0 \<le> picks ! w \<and> picks ! w < int (length pop)" using assms(4) w by simp
  then have npw: "nat (picks ! w) < length pop" by linarith
  have res: "insertBestInDeme deme picks pop = Inr (pop[nat (picks ! w) := deme ! b])"
    using run m assms(2) p0 pw b w by (simp add: insertBestInDeme_def)
  have others: "\<forall>i<length picks. i \<noteq> w \<longrightarrow>
                 pop[nat (picks ! w) := deme ! b] ! nat (picks ! i) = pop ! nat (picks ! i)"
  proof (intro allI impI)
    fix i assume i: "i < length picks" and ne: "i \<noteq> w"
    then have "picks ! i \<noteq> picks ! w" using assms(3) w by (simp add: nth_eq_iff_index_eq)
    moreover have "0 \<le> picks ! i" using assms(4) i by simp
    ultimately have "nat (picks ! i) \<noteq> nat (picks ! w)" using pw by auto
    then show "pop[nat (picks ! w) := deme ! b] ! nat (picks ! i) = pop ! nat (picks ! i)"
      by simp
  qed
  have e1: "\<forall>i<length deme. getFitness (deme ! b) \<le> getFitness (deme ! i)"
    using ext(1) m by (simp add: less_Suc_eq_le)
  have e3: "\<forall>i<length picks. getFitness (pop ! nat (picks ! i))
                                  \<le> getFitness (pop ! nat (picks ! w))"
    using ext(3) m assms(2) by (simp add: less_Suc_eq_le)
  have differ: "\<forall>j<length pop. pop[nat (picks ! w) := deme ! b] ! j \<noteq> pop ! j \<longleftrightarrow>
                 j = nat (picks ! w) \<and> deme ! b \<noteq> pop ! nat (picks ! w)"
    using npw by (auto simp: nth_list_update)
  show ?thesis
    using b w res e1 ext(2) e3 ext(4) npw others differ
    by (intro exI [of _ b] exI [of _ w]) simp
qed

text \<open>
  The statement of C7 at a deme with a tie for the best and picks with a tie for the
  worst: the first of each wins.
\<close>

theorem insertBestInDeme_correct_witness:
  "[ind_of 4, ind_of 2, ind_of 2] \<noteq> [] \<and> length [2, 0, 1::int] = length [ind_of 4, ind_of 2, ind_of 2]
   \<and> distinct [2, 0, 1::int]
   \<and> insertBestInDeme [ind_of 4, ind_of 2, ind_of 2] [2, 0, 1] [ind_of 9, ind_of 5, ind_of 9]
        = Inr [ind_of 9, ind_of 5, ind_of 2]"
proof -
  let ?deme = "[ind_of 4, ind_of 2, ind_of 2]" and ?picks = "[2, 0, 1::int]"
  let ?pop = "[ind_of 9, ind_of 5, ind_of 9]"
  have h1: "?deme \<noteq> []" by simp
  have h2: "length ?picks = length ?deme" by simp
  have h3: "distinct ?picks" by simp
  have h4: "\<forall>p\<in>set ?picks. 0 \<le> p \<and> p < int (length ?pop)" by simp
  from insertBestInDeme_correct [OF h1 h2 h3 h4]
  obtain b w where b: "b < length ?deme" and w: "w < length ?picks"
    and run: "insertBestInDeme ?deme ?picks ?pop = Inr (?pop[nat (?picks ! w) := ?deme ! b])"
    and bmin: "\<forall>i<length ?deme. getFitness (?deme ! b) \<le> getFitness (?deme ! i)"
    and bfirst: "\<forall>i<b. getFitness (?deme ! b) < getFitness (?deme ! i)"
    and wmax: "\<forall>i<length ?picks. getFitness (?pop ! nat (?picks ! i))
                                  \<le> getFitness (?pop ! nat (?picks ! w))"
    and wfirst: "\<forall>i<w. getFitness (?pop ! nat (?picks ! i)) < getFitness (?pop ! nat (?picks ! w))"
    by blast
  from b consider "b = 0" | "b = 1" | "b = 2" by force
  then have b1: "b = 1"
  proof cases
    case 1
    then show ?thesis using bmin [rule_format, of 1] by (simp add: ind_of_def)
  next
    case 2
    then show ?thesis .
  next
    case 3
    then show ?thesis using bfirst [rule_format, of 1] by (simp add: ind_of_def)
  qed
  from w consider "w = 0" | "w = 1" | "w = 2" by force
  then have w0: "w = 0"
  proof cases
    case 1
    then show ?thesis .
  next
    case 2
    then show ?thesis using wfirst [rule_format, of 0] by (simp add: ind_of_def)
  next
    case 3
    then show ?thesis using wmax [rule_format, of 0] by (simp add: ind_of_def)
  qed
  show ?thesis using run b1 w0 h1 h2 h3 h4 by simp
qed

lemma Individual_overwrite:
  "old\<lparr>getDecisionVector := getDecisionVector x, getVelocity := getVelocity x,
       getFitness := getFitness x\<rparr> = (x :: Individual)"
  by (cases x, cases old) simp

lemma substituteIndividual_eval:
  "substituteIndividual x n pop =
     (if 0 \<le> n \<and> n < int (length pop) then Inr (pop[nat n := x]) else Inl out_of_range)"
  by (simp add: substituteIndividual_def vec_at_def setFitness_def setVelocity_def
      setDecisionVector_def Individual_overwrite)

text \<open>
  Claim C4 says that an out-of-range index handed to \<^verbatim>\<open>substituteIndividual\<close> or to
  \<^verbatim>\<open>operator[]\<close>, and a request to \<^verbatim>\<open>extractRandomDeme\<close> for more individuals than there are,
  fail with a detectable fault. The code checks no index: on the empty population each of
  the three runs into an unchecked access outside a vector, which is undefined behaviour and
  not a fault the caller can detect.
\<close>

theorem bounds_fault_counterexample:
  "substituteIndividual (ind_of 1) 0 [] = Inl out_of_range
   \<and> operator_index [] 0 = Inl out_of_range
   \<and> extractRandomDeme 1 [] (const_rng 0) [] = Inl out_of_range
   \<and> \<not> detectable out_of_range"
  by (simp add: substituteIndividual_eval operator_index_def extractRandomDeme_def
      nextDouble_def int_cast_def const_rng_def)

text \<open>
  Claim C4, amended. \<^verbatim>\<open>substituteIndividual(x, n)\<close> and \<^verbatim>\<open>operator[](n)\<close> are defined exactly
  for \<open>0 \<le> n < size\<close>: then the first overwrites position \<open>n\<close> with \<open>x\<close> and nothing else, and
  the second returns the individual at \<open>n\<close>. With a generator whose values lie in \<open>[0,1)\<close>,
  \<^verbatim>\<open>extractRandomDeme(N, \<dots>)\<close> is defined exactly for \<open>N \<le> size\<close>, and then leaves the
  population unchanged. Outside these preconditions the code performs an unchecked access
  outside a vector; no check and no exception exists in the code.
\<close>

theorem bounds_precondition:
  "substituteIndividual x n pop =
     (if 0 \<le> n \<and> n < int (length pop) then Inr (pop[nat n := x]) else Inl out_of_range)
   \<and> operator_index pop n =
     (if 0 \<le> n \<and> n < int (length pop) then Inr (pop ! nat n) else Inl out_of_range)
   \<and> ((\<forall>k. 0 \<le> rng k \<and> rng k < 1) \<longrightarrow>
        (if N \<le> int (length pop)
         then \<exists>deme picks' rng'. extractRandomDeme N picks rng pop = Inr (deme, picks', rng', pop)
         else extractRandomDeme N picks rng pop = Inl out_of_range))"
proof (intro conjI impI)
  show "substituteIndividual x n pop =
     (if 0 \<le> n \<and> n < int (length pop) then Inr (pop[nat n := x]) else Inl out_of_range)"
    by (rule substituteIndividual_eval)
  show "operator_index pop n =
     (if 0 \<le> n \<and> n < int (length pop) then Inr (pop ! nat n) else Inl out_of_range)"
    by (simp add: operator_index_def vec_at_def)
  assume r: "\<forall>k. 0 \<le> rng k \<and> rng k < 1"
  let ?PP = "map int [0..<length pop]"
  have d: "distinct ?PP" by (simp add: distinct_map)
  have rg: "\<forall>p\<in>set ?PP. 0 \<le> p \<and> p < int (length pop)" by auto
  show "if N \<le> int (length pop)
         then \<exists>deme picks' rng'. extractRandomDeme N picks rng pop = Inr (deme, picks', rng', pop)
         else extractRandomDeme N picks rng pop = Inl out_of_range"
  proof (cases "N \<le> int (length pop)")
    case True
    then have len: "nat N \<le> length ?PP" by simp
    from extract_loop_ok [OF r len d rg, of "[]" picks]
    obtain new PP' rng' where
      "extractRandomDeme_loop (nat N) pop ([], picks, ?PP, rng)
            = Inr ([] @ map (\<lambda>p. pop ! nat p) new, picks @ new, PP', rng')"
      by blast
    then have "extractRandomDeme N picks rng pop
        = Inr (map (\<lambda>p. pop ! nat p) new, picks @ new, rng', pop)"
      by (simp add: extractRandomDeme_def)
    then show ?thesis using True by auto
  next
    case False
    then have len: "length ?PP < nat N" by simp
    have "extractRandomDeme_loop (nat N) pop ([], picks, ?PP, rng) = Inl out_of_range"
      by (rule extract_loop_fail [OF r len d rg])
    then show ?thesis using False by (simp add: extractRandomDeme_def)
  qed
qed

text \<open>
  The amended statement of C4 at a population of two: index \<open>1\<close> is served, indices
  \<open>2\<close> and \<open>-1\<close> and a deme of three are not.
\<close>

theorem bounds_precondition_witness:
  "substituteIndividual (ind_of 1) 1 [ind_of 5, ind_of 7] = Inr [ind_of 5, ind_of 1]
   \<and> substituteIndividual (ind_of 1) 2 [ind_of 5, ind_of 7] = Inl out_of_range
   \<and> operator_index [ind_of 5, ind_of 7] 1 = Inr (ind_of 7)
   \<and> operator_index [ind_of 5, ind_of 7] (- 1) = Inl out_of_range
   \<and> (\<forall>k. 0 \<le> const_rng 0 k \<and> const_rng 0 k < 1)
   \<and> extractRandomDeme 3 [] (const_rng 0) [ind_of 5, ind_of 7] = Inl out_of_range"
  using bounds_precondition [of "ind_of 1" 1 "[ind_of 5, ind_of 7]" "const_rng 0" 3 "[]"]
    bounds_precondition [of "ind_of 1" 2 "[ind_of 5, ind_of 7]" "const_rng 0" 3 "[]"]
    bounds_precondition [of "ind_of 1" "- 1" "[ind_of 5, ind_of 7]" "const_rng 0" 3 "[]"]
  by (simp add: const_rng_def)

section \<open>Properties of \<^verbatim>\<open>sa_corana\<close>\<close>

lemma sa_move_out:
  assumes "out_of_bounds prob drng Dc s"
  shows "sa_move prob drng Dc s =
           s\<lparr>nter := move_index Dc s, draws := draws s + 1,
             xNEW := (candidate prob drng Dc s)[move_index Dc s := xOLD s ! move_index Dc s]\<rparr>"
  using assms
  by (simp add: sa_move_def out_of_bounds_def candidate_def move_index_def Let_def)

lemma sa_move_better:
  assumes "\<not> out_of_bounds prob drng Dc s"
    and "compare_fitness prob (objfun prob (candidate prob drng Dc s)) (fOLD s)"
  shows "sa_move prob drng Dc s =
           accept (move_index Dc s)
             (s\<lparr>nter := move_index Dc s, draws := draws s + 1,
                xNEW := candidate prob drng Dc s,
                fNEW := objfun prob (candidate prob drng Dc s), evals := evals s + 1\<rparr>)"
  using assms
  by (simp add: sa_move_def out_of_bounds_def candidate_def move_index_def Let_def)

lemma sa_move_boltzmann:
  assumes "\<not> out_of_bounds prob drng Dc s"
    and "\<not> compare_fitness prob (objfun prob (candidate prob drng Dc s)) (fOLD s)"
  shows "sa_move prob drng Dc s =
          (let s3 = s\<lparr>nter := move_index Dc s, draws := draws s + 2,
                      xNEW := candidate prob drng Dc s,
                      fNEW := objfun prob (candidate prob drng Dc s), evals := evals s + 1\<rparr>
           in if exp (\<bar>fOLD s ! 0 - objfun prob (candidate prob drng Dc s) ! 0\<bar> / currentT s)
                   > drng (draws s + 1)
              then accept (move_index Dc s) s3
              else s3\<lparr>xNEW := (candidate prob drng Dc s)[move_index Dc s := xOLD s ! move_index Dc s]\<rparr>)"
  using assms
  by (simp add: sa_move_def out_of_bounds_def candidate_def move_index_def Let_def accept_def)

lemma sa_move_evals_draws:
  "evals (sa_move prob drng Dc s) = (if out_of_bounds prob drng Dc s then evals s else evals s + 1)
   \<and> draws (sa_move prob drng Dc s) =
       (if out_of_bounds prob drng Dc s
           \<or> compare_fitness prob (objfun prob (candidate prob drng Dc s)) (fOLD s)
        then draws s + 1 else draws s + 2)"
  by (simp add: sa_move_def out_of_bounds_def candidate_def move_index_def Let_def accept_def)

text \<open>
  Claim C2. In one per-dimension move of \<^verbatim>\<open>evolve\<close>: a candidate coordinate outside
  \<open>[lb, ub]\<close> is reverted and the objective function is not called; a candidate within the
  bounds is evaluated (one call), and accepted when \<^verbatim>\<open>compare_fitness\<close> says that it strictly
  improves on the current point; a candidate within the bounds that does not improve is
  accepted exactly when \<open>exp (|f_old - f_new| / currentT)\<close> is greater than the next value of
  the generator, which is drawn for this test only, and is reverted otherwise.
\<close>

theorem sa_move_decision:
  "(out_of_bounds prob drng Dc s \<longrightarrow>
      move_reverted prob drng Dc s (sa_move prob drng Dc s)
      \<and> evals (sa_move prob drng Dc s) = evals s
      \<and> draws (sa_move prob drng Dc s) = draws s + 1)
   \<and> (\<not> out_of_bounds prob drng Dc s
        \<and> compare_fitness prob (objfun prob (candidate prob drng Dc s)) (fOLD s) \<longrightarrow>
      move_accepted prob drng Dc s (sa_move prob drng Dc s)
      \<and> evals (sa_move prob drng Dc s) = evals s + 1
      \<and> draws (sa_move prob drng Dc s) = draws s + 1)
   \<and> (\<not> out_of_bounds prob drng Dc s
        \<and> \<not> compare_fitness prob (objfun prob (candidate prob drng Dc s)) (fOLD s) \<longrightarrow>
      evals (sa_move prob drng Dc s) = evals s + 1
      \<and> draws (sa_move prob drng Dc s) = draws s + 2
      \<and> (if exp (\<bar>fOLD s ! 0 - objfun prob (candidate prob drng Dc s) ! 0\<bar> / currentT s)
              > drng (draws s + 1)
         then move_accepted prob drng Dc s (sa_move prob drng Dc s)
         else move_reverted prob drng Dc s (sa_move prob drng Dc s)))"
proof (intro conjI impI)
  assume o: "out_of_bounds prob drng Dc s"
  show "move_reverted prob drng Dc s (sa_move prob drng Dc s)"
    by (simp add: sa_move_out [OF o] move_reverted_def)
  show "evals (sa_move prob drng Dc s) = evals s"
    and "draws (sa_move prob drng Dc s) = draws s + 1"
    using o by (simp_all add: sa_move_evals_draws)
next
  assume h: "\<not> out_of_bounds prob drng Dc s
        \<and> compare_fitness prob (objfun prob (candidate prob drng Dc s)) (fOLD s)"
  then have i: "\<not> out_of_bounds prob drng Dc s"
    and c: "compare_fitness prob (objfun prob (candidate prob drng Dc s)) (fOLD s)" by simp_all
  show "move_accepted prob drng Dc s (sa_move prob drng Dc s)"
    by (simp add: sa_move_better [OF i c] move_accepted_def accept_def)
  show "evals (sa_move prob drng Dc s) = evals s + 1"
    and "draws (sa_move prob drng Dc s) = draws s + 1"
    using i c by (simp_all add: sa_move_evals_draws)
next
  assume h: "\<not> out_of_bounds prob drng Dc s
        \<and> \<not> compare_fitness prob (objfun prob (candidate prob drng Dc s)) (fOLD s)"
  then have i: "\<not> out_of_bounds prob drng Dc s"
    and c: "\<not> compare_fitness prob (objfun prob (candidate prob drng Dc s)) (fOLD s)"
    by simp_all
  show "evals (sa_move prob drng Dc s) = evals s + 1"
    and "draws (sa_move prob drng Dc s) = draws s + 2"
    using i c by (simp_all add: sa_move_evals_draws)
  show "if exp (\<bar>fOLD s ! 0 - objfun prob (candidate prob drng Dc s) ! 0\<bar> / currentT s)
              > drng (draws s + 1)
         then move_accepted prob drng Dc s (sa_move prob drng Dc s)
         else move_reverted prob drng Dc s (sa_move prob drng Dc s)"
    by (simp add: sa_move_boltzmann [OF i c] move_accepted_def move_reverted_def accept_def Let_def)
qed

lemma sa_move_outcome:
  "move_reverted prob drng Dc s (sa_move prob drng Dc s)
   \<or> (\<not> out_of_bounds prob drng Dc s \<and> move_accepted prob drng Dc s (sa_move prob drng Dc s))"
proof (cases "out_of_bounds prob drng Dc s")
  case True
  then show ?thesis by (simp add: sa_move_out move_reverted_def)
next
  case i: False
  show ?thesis
  proof (cases "compare_fitness prob (objfun prob (candidate prob drng Dc s)) (fOLD s)")
    case True
    then show ?thesis
      using i by (simp add: sa_move_better [OF i True] move_accepted_def accept_def)
  next
    case c: False
    show ?thesis
      using i
      by (simp add: sa_move_boltzmann [OF i c] move_accepted_def move_reverted_def accept_def
          Let_def)
  qed
qed

lemma candidate_inv:
  assumes "sa_inv prob s" "Dc \<le> get_dimension prob" "0 < Dc"
  shows "move_index Dc s < length (xOLD s)"
    and "candidate prob drng Dc s ! move_index Dc s
           = xOLD s ! move_index Dc s
             + (2 * drng (draws s) - 1) * Step s ! move_index Dc s
               * (get_ub prob ! move_index Dc s - get_lb prob ! move_index Dc s)"
    and "(candidate prob drng Dc s)[move_index Dc s := xOLD s ! move_index Dc s] = xOLD s"
    and "(xOLD s)[move_index Dc s := candidate prob drng Dc s ! move_index Dc s]
           = candidate prob drng Dc s"
    and "length (candidate prob drng Dc s) = get_dimension prob"
proof -
  have len: "length (xOLD s) = get_dimension prob" and eq: "xNEW s = xOLD s"
    using assms(1) by (simp_all add: sa_inv_def within_bounds_def)
  have "move_index Dc s < Dc" using assms(3) by (simp add: move_index_def)
  then show n: "move_index Dc s < length (xOLD s)" using assms(2) len by simp
  show "candidate prob drng Dc s ! move_index Dc s
           = xOLD s ! move_index Dc s
             + (2 * drng (draws s) - 1) * Step s ! move_index Dc s
               * (get_ub prob ! move_index Dc s - get_lb prob ! move_index Dc s)"
    using n eq by (simp add: candidate_def Let_def)
  show "(candidate prob drng Dc s)[move_index Dc s := xOLD s ! move_index Dc s] = xOLD s"
    using eq by (simp add: candidate_def Let_def)
  show "(xOLD s)[move_index Dc s := candidate prob drng Dc s ! move_index Dc s]
           = candidate prob drng Dc s"
    using n eq by (simp add: candidate_def Let_def)
  show "length (candidate prob drng Dc s) = get_dimension prob"
    using eq len by (simp add: candidate_def Let_def)
qed

lemma candidate_within:
  assumes "sa_inv prob s" "Dc \<le> get_dimension prob" "0 < Dc"
    and "\<not> out_of_bounds prob drng Dc s"
  shows "within_bounds prob (candidate prob drng Dc s)"
proof -
  let ?n = "move_index Dc s" and ?xc = "candidate prob drng Dc s"
  have wb: "within_bounds prob (xOLD s)" and eq: "xNEW s = xOLD s"
    using assms(1) by (simp_all add: sa_inv_def)
  have n: "?n < length (xOLD s)" by (rule candidate_inv(1) [OF assms(1-3)])
  have inb: "get_lb prob ! ?n \<le> ?xc ! ?n \<and> ?xc ! ?n \<le> get_ub prob ! ?n"
    using assms(4) by (auto simp: out_of_bounds_def Let_def)
  have other: "\<And>i. i \<noteq> ?n \<Longrightarrow> ?xc ! i = xOLD s ! i"
    using eq by (simp add: candidate_def Let_def)
  have "\<forall>i<get_dimension prob. get_lb prob ! i \<le> ?xc ! i \<and> ?xc ! i \<le> get_ub prob ! i"
  proof (intro allI impI)
    fix i assume i: "i < get_dimension prob"
    show "get_lb prob ! i \<le> ?xc ! i \<and> ?xc ! i \<le> get_ub prob ! i"
    proof (cases "i = ?n")
      case True
      then show ?thesis using inb by simp
    next
      case False
      then show ?thesis using other [OF False] wb i by (simp add: within_bounds_def)
    qed
  qed
  then show ?thesis
    using candidate_inv(5) [OF assms(1-3)] by (simp add: within_bounds_def)
qed

lemma sa_move_inv:
  assumes "sa_inv prob s" "Dc \<le> get_dimension prob" "0 < Dc"
  shows "sa_inv prob (sa_move prob drng Dc s)"
proof -
  note ci = candidate_inv [OF assms]
  have rev: "\<And>s'. move_reverted prob drng Dc s s' \<Longrightarrow> sa_inv prob s'"
    using assms(1) ci(3) by (simp add: move_reverted_def sa_inv_def Let_def)
  have acc: "\<And>s'. \<not> out_of_bounds prob drng Dc s \<Longrightarrow> move_accepted prob drng Dc s s'
                 \<Longrightarrow> sa_inv prob s'"
    using candidate_within [OF assms] ci(4) by (simp add: move_accepted_def sa_inv_def Let_def)
  show ?thesis using sa_move_outcome [of prob drng Dc s] rev acc by blast
qed

lemma sweep_start_fields [simp]:
  "xNEW (sweep_start drng Dc s) = xNEW s" "xOLD (sweep_start drng Dc s) = xOLD s"
  "fOLD (sweep_start drng Dc s) = fOLD s" "currentT (sweep_start drng Dc s) = currentT s"
  by (simp_all add: sweep_start_def)

lemma adjust_step_fields [simp]:
  "xNEW (adjust_step a iter s) = xNEW s" "xOLD (adjust_step a iter s) = xOLD s"
  "fOLD (adjust_step a iter s) = fOLD s" "currentT (adjust_step a iter s) = currentT s"
  by (simp_all add: adjust_step_def Let_def)

lemma cooling_fields [simp]:
  "xNEW (cooling c s) = xNEW s" "xOLD (cooling c s) = xOLD s"
  "fOLD (cooling c s) = fOLD s" "currentT (cooling c s) = currentT s * c"
  by (simp_all add: cooling_def)

lemma sa_move_currentT [simp]: "currentT (sa_move prob drng Dc s) = currentT s"
  by (simp add: sa_move_def Let_def accept_def)

lemma fold_adjust_fields [simp]:
  "xNEW (fold (adjust_step a) is s) = xNEW s" "xOLD (fold (adjust_step a) is s) = xOLD s"
  "fOLD (fold (adjust_step a) is s) = fOLD s"
  by (induction "is" arbitrary: s) simp_all

lemma reach_inv:
  assumes "sa_reach a prob drng Dc Tcoeff s0 s"
    and "sa_inv prob s0" "Dc \<le> get_dimension prob" "0 < Dc"
  shows "sa_inv prob s"
  using assms
proof (induction rule: sa_reach.induct)
  case reach_start
  then show ?case by simp
next
  case (reach_sweep_start s)
  then show ?case by (simp add: sa_inv_def)
next
  case (reach_move s)
  then show ?case by (simp add: sa_move_inv)
next
  case (reach_adjust s iter)
  then show ?case by (simp add: sa_inv_def)
next
  case (reach_cooling s)
  then show ?case by (simp add: sa_inv_def)
qed


lemma reach_funpow:
  assumes "\<And>s. sa_reach a prob drng Dc Tcoeff s0 s \<Longrightarrow> sa_reach a prob drng Dc Tcoeff s0 (f s)"
    and "sa_reach a prob drng Dc Tcoeff s0 s"
  shows "sa_reach a prob drng Dc Tcoeff s0 ((f ^^ k) s)"
  using assms by (induction k) simp_all

lemma reach_sweep:
  assumes "sa_reach a prob drng Dc Tcoeff s0 s"
  shows "sa_reach a prob drng Dc Tcoeff s0 (sa_sweep prob drng Dc s)"
  unfolding sa_sweep_def
  by (rule reach_funpow) (auto intro: sa_reach.intros assms)

lemma reach_fold_adjust:
  assumes "sa_reach a prob drng Dc Tcoeff s0 s" "k \<le> Dc"
  shows "sa_reach a prob drng Dc Tcoeff s0 (fold (adjust_step a) [0..<k] s)"
  using assms(2)
proof (induction k)
  case 0
  then show ?case using assms(1) by simp
next
  case (Suc k)
  then show ?case by (simp add: reach_adjust)
qed

lemma reach_period:
  assumes "sa_reach a prob drng Dc Tcoeff s0 s"
  shows "sa_reach a prob drng Dc Tcoeff s0 (sa_period a prob drng Dc s)"
  unfolding sa_period_def
  by (rule reach_fold_adjust [OF reach_funpow [OF reach_sweep assms] le_refl])

lemma reach_stage:
  assumes "sa_reach a prob drng Dc Tcoeff s0 s"
  shows "sa_reach a prob drng Dc Tcoeff s0 (sa_stage a prob drng Dc Tcoeff s)"
  unfolding sa_stage_def
  by (rule reach_cooling [OF reach_funpow [OF reach_period assms]])

lemma reach_loops:
  "sa_reach a prob drng Dc Tcoeff s0 (sa_loops a prob drng Dc Tcoeff niterOuter s0)"
  unfolding sa_loops_def
  by (rule reach_funpow [OF reach_stage reach_start])

lemma ctor_Inr:
  assumes "sa_corana_ctor niter Ts Tf niterT niterR range' = Inr a"
  shows "a = \<lparr>m_niter = niter, m_Ts = Ts, m_Tf = Tf, m_niterT = niterT,
               m_niterR = niterR, m_range = range'\<rparr>"
    and "0 \<le> niter" "0 < Tf" "Tf < Ts" "0 \<le> niterT" "0 \<le> niterR" "0 \<le> range'" "range' \<le> 1"
  using assms by (auto simp: sa_corana_ctor_def split: if_splits)

lemma d_test_finite:
  assumes "T \<noteq> 0"
  shows "d_gt (d_exp (d_div (d_fabs (d_minus (Finite a) (Finite b))) (Finite T))) (Finite u)
           \<longleftrightarrow> u < exp (\<bar>a - b\<bar> / T)"
  using assms by simp






lemma map2_minus_self: "map2 (-) xs xs = replicate (length xs) (0::real)"
  by (induction xs) simp_all

lemma evolve_Inr:
  assumes "evolve a drng get_best_idx pop = Inr pop'"
  shows "\<exists>n. niterOuter_of a (get_dimension (pop_problem pop) - get_i_dimension (pop_problem pop))
                = Inr n
           \<and> 0 < n
           \<and> 0 < get_dimension (pop_problem pop) - get_i_dimension (pop_problem pop)
           \<and> get_c_dimension (pop_problem pop) = 0 \<and> get_f_dimension (pop_problem pop) = 1
           \<and> get_best_idx pop < length (individuals pop)
           \<and> pop' =
               (if compare_fitness (pop_problem pop)
                     (fOLD (sa_loops a (pop_problem pop) drng
                          (get_dimension (pop_problem pop) - get_i_dimension (pop_problem pop))
                          ((m_Tf a / m_Ts a) powr (1 / real n)) n
                          (sa_init a (get_dimension (pop_problem pop))
                             (cur_x (individuals pop ! get_best_idx pop))
                             (cur_f (individuals pop ! get_best_idx pop)))))
                     (cur_f (individuals pop ! get_best_idx pop))
                then pop\<lparr>individuals := (individuals pop)[get_best_idx pop :=
                       (individuals pop ! get_best_idx pop)
                         \<lparr>cur_x := xOLD (sa_loops a (pop_problem pop) drng
                          (get_dimension (pop_problem pop) - get_i_dimension (pop_problem pop))
                          ((m_Tf a / m_Ts a) powr (1 / real n)) n
                          (sa_init a (get_dimension (pop_problem pop))
                             (cur_x (individuals pop ! get_best_idx pop))
                             (cur_f (individuals pop ! get_best_idx pop)))),
                          cur_v := replicate (length (xOLD (sa_loops a (pop_problem pop) drng
                          (get_dimension (pop_problem pop) - get_i_dimension (pop_problem pop))
                          ((m_Tf a / m_Ts a) powr (1 / real n)) n
                          (sa_init a (get_dimension (pop_problem pop))
                             (cur_x (individuals pop ! get_best_idx pop))
                             (cur_f (individuals pop ! get_best_idx pop)))))) 0\<rparr>]\<rparr>
                else pop)"
proof -
  let ?prob = "pop_problem pop"
  let ?Dc = "get_dimension ?prob - get_i_dimension ?prob"
  from assms have dc: "?Dc \<noteq> 0" and cd: "get_c_dimension ?prob = 0"
    and fd: "get_f_dimension ?prob = 1"
    by (auto simp: evolve_def Let_def split: if_splits)
  from assms dc cd fd obtain n where n: "niterOuter_of a ?Dc = Inr n"
    by (cases "niterOuter_of a ?Dc") (auto simp: evolve_def Let_def)
  from assms dc cd fd n have n0: "n \<noteq> 0"
    by (auto simp: evolve_def Let_def split: if_splits)
  from assms dc cd fd n n0 have b: "get_best_idx pop < length (individuals pop)"
    by (auto simp: evolve_def Let_def get_individual_def split: if_splits)
  let ?best = "individuals pop ! get_best_idx pop"
  let ?s = "sa_loops a ?prob drng ?Dc ((m_Tf a / m_Ts a) powr (1 / real n)) n
              (sa_init a (get_dimension ?prob) (cur_x ?best) (cur_f ?best))"
  have "evolve a drng get_best_idx pop =
          (if compare_fitness ?prob (fOLD ?s) (cur_f ?best)
           then Inr (pop\<lparr>individuals := (individuals pop)[get_best_idx pop :=
                          ?best\<lparr>cur_x := xOLD ?s, cur_v := replicate (length (xOLD ?s)) 0\<rparr>]\<rparr>)
           else Inr pop)"
    using dc cd fd n n0 b
    by (simp add: evolve_def Let_def get_individual_def set_x_def set_v_def map2_minus_self)
  then have "pop' = (if compare_fitness ?prob (fOLD ?s) (cur_f ?best)
           then pop\<lparr>individuals := (individuals pop)[get_best_idx pop :=
                          ?best\<lparr>cur_x := xOLD ?s, cur_v := replicate (length (xOLD ?s)) 0\<rparr>]\<rparr>
           else pop)"
    using assms by (simp split: if_splits)
  then show ?thesis using n n0 dc cd fd b by (intro exI [of _ n]) simp
qed

lemma Min_map_le:
  assumes "xs \<noteq> []" "length ys = length xs" "\<forall>j<length xs. f (ys ! j) \<le> (f (xs ! j) :: real)"
  shows "Min (set (map f ys)) \<le> Min (set (map f xs))"
proof -
  have "Min (set (map f xs)) \<in> set (map f xs)" using assms(1) by (intro Min_in) simp_all
  then obtain j where j: "j < length xs" and m: "Min (set (map f xs)) = f (xs ! j)"
    by (auto simp: in_set_conv_nth)
  have "f (ys ! j) \<in> set (map f ys)" using j assms(2) by simp
  then have "Min (set (map f ys)) \<le> f (ys ! j)" by (intro Min_le) simp_all
  then show ?thesis using m assms(3) j by force
qed

text \<open>
  Claim C8. Let \<^verbatim>\<open>evolve\<close> return a population, for a problem whose comparison is the
  single-objective one (a fitness preferred to another is strictly lower) and a population
  whose members lie within \<open>[LB, UB]\<close> and carry the fitness of their decision vector. Then
  no individual's objective value is above its value before the call, so the best objective
  value of the population does not regress; every member of the result lies within the
  bounds; and in every state that the run passes through, the candidate and the current
  decision vector coincide and lie componentwise within \<open>[LB, UB]\<close>. The state in which the
  loops end is such a state.
\<close>

theorem evolve_never_regresses:
  assumes run: "evolve a drng get_best_idx pop = Inr pop'"
    and lower: "\<forall>f g. compare_fitness (pop_problem pop) f g \<longrightarrow> f ! 0 < g ! 0"
    and inb: "\<forall>ind\<in>set (individuals pop). within_bounds (pop_problem pop) (cur_x ind)"
    and evald: "\<forall>ind\<in>set (individuals pop). cur_f ind = objfun (pop_problem pop) (cur_x ind)"
  shows "pop_problem pop' = pop_problem pop
     \<and> length (individuals pop') = length (individuals pop)
     \<and> (\<forall>j<length (individuals pop).
           objective (pop_problem pop) (individuals pop' ! j)
             \<le> objective (pop_problem pop) (individuals pop ! j))
     \<and> best_objective pop' \<le> best_objective pop
     \<and> (\<forall>ind\<in>set (individuals pop'). within_bounds (pop_problem pop) (cur_x ind))
     \<and> (\<forall>Tcoeff s.
           sa_reach a (pop_problem pop) drng
             (get_dimension (pop_problem pop) - get_i_dimension (pop_problem pop)) Tcoeff
             (sa_init a (get_dimension (pop_problem pop))
                (cur_x (individuals pop ! get_best_idx pop))
                (cur_f (individuals pop ! get_best_idx pop))) s
           \<longrightarrow> xNEW s = xOLD s \<and> within_bounds (pop_problem pop) (xOLD s))
     \<and> (\<forall>Tcoeff n.
           sa_reach a (pop_problem pop) drng
             (get_dimension (pop_problem pop) - get_i_dimension (pop_problem pop)) Tcoeff
             (sa_init a (get_dimension (pop_problem pop))
                (cur_x (individuals pop ! get_best_idx pop))
                (cur_f (individuals pop ! get_best_idx pop)))
             (sa_loops a (pop_problem pop) drng
                (get_dimension (pop_problem pop) - get_i_dimension (pop_problem pop)) Tcoeff n
                (sa_init a (get_dimension (pop_problem pop))
                   (cur_x (individuals pop ! get_best_idx pop))
                   (cur_f (individuals pop ! get_best_idx pop)))))"
proof -
  let ?prob = "pop_problem pop"
  let ?D = "get_dimension ?prob"
  let ?Dc = "?D - get_i_dimension ?prob"
  let ?b = "get_best_idx pop"
  let ?best = "individuals pop ! ?b"
  let ?init = "sa_init a ?D (cur_x ?best) (cur_f ?best)"
  from evolve_Inr [OF run] obtain n where
    all: "niterOuter_of a ?Dc = Inr n \<and> 0 < n \<and> 0 < ?Dc
     \<and> get_c_dimension ?prob = 0 \<and> get_f_dimension ?prob = 1
     \<and> ?b < length (individuals pop)
     \<and> pop' =
       (if compare_fitness ?prob
             (fOLD (sa_loops a ?prob drng ?Dc ((m_Tf a / m_Ts a) powr (1 / real n)) n ?init))
             (cur_f ?best)
        then pop\<lparr>individuals := (individuals pop)[?b :=
               ?best\<lparr>cur_x := xOLD (sa_loops a ?prob drng ?Dc
                                  ((m_Tf a / m_Ts a) powr (1 / real n)) n ?init),
                       cur_v := replicate (length (xOLD (sa_loops a ?prob drng ?Dc
                                  ((m_Tf a / m_Ts a) powr (1 / real n)) n ?init))) 0\<rparr>]\<rparr>
        else pop)"
    by (rule exE)
  then have n: "0 < n" and dc: "0 < ?Dc" and b: "?b < length (individuals pop)"
    by simp_all
  let ?s = "sa_loops a ?prob drng ?Dc ((m_Tf a / m_Ts a) powr (1 / real n)) n ?init"
  let ?new = "?best\<lparr>cur_x := xOLD ?s, cur_v := replicate (length (xOLD ?s)) 0\<rparr>"
  have bin: "?best \<in> set (individuals pop)" using b by simp
  have inv0: "sa_inv ?prob ?init"
    using inb evald bin by (simp add: sa_inv_def sa_init_def)
  have dle: "?Dc \<le> ?D" by simp
  have reach: "\<And>Tcoeff s. sa_reach a ?prob drng ?Dc Tcoeff ?init s \<Longrightarrow> sa_inv ?prob s"
    by (rule reach_inv [OF _ inv0 dle dc])
  have invs: "sa_inv ?prob ?s" by (rule reach [OF reach_loops])
  have P: "pop' = (if compare_fitness ?prob (fOLD ?s) (cur_f ?best)
                   then pop\<lparr>individuals := (individuals pop)[?b := ?new]\<rparr> else pop)"
    using all by simp
  have prob': "pop_problem pop' = ?prob" and len': "length (individuals pop') = length (individuals pop)"
    using P by (simp_all split: if_splits)
  have better: "compare_fitness ?prob (fOLD ?s) (cur_f ?best)
                  \<Longrightarrow> objective ?prob ?new < objective ?prob ?best"
  proof -
    assume "compare_fitness ?prob (fOLD ?s) (cur_f ?best)"
    then have "fOLD ?s ! 0 < cur_f ?best ! 0" using lower by blast
    moreover have "fOLD ?s = objfun ?prob (xOLD ?s)" using invs by (simp add: sa_inv_def)
    moreover have "cur_f ?best = objfun ?prob (cur_x ?best)" using evald bin by blast
    ultimately show ?thesis by (simp add: objective_def)
  qed
  have each: "\<forall>j<length (individuals pop).
           objective ?prob (individuals pop' ! j) \<le> objective ?prob (individuals pop ! j)"
  proof (intro allI impI)
    fix j assume j: "j < length (individuals pop)"
    show "objective ?prob (individuals pop' ! j) \<le> objective ?prob (individuals pop ! j)"
    proof (cases "compare_fitness ?prob (fOLD ?s) (cur_f ?best)")
      case True
      then have ip: "individuals pop' = (individuals pop)[?b := ?new]" using P by simp
      show ?thesis
      proof (cases "j = ?b")
        case jb: True
        then have "individuals pop' ! j = ?new" using ip b by simp
        then show ?thesis using better [OF True] jb by simp
      next
        case False
        then show ?thesis using ip by simp
      qed
    next
      case False
      then show ?thesis using P by simp
    qed
  qed
  have ne: "individuals pop \<noteq> []" using b by auto
  have best: "best_objective pop' \<le> best_objective pop"
    unfolding best_objective_def prob'
    by (rule Min_map_le [OF ne len' each])
  have members: "\<forall>ind\<in>set (individuals pop'). within_bounds ?prob (cur_x ind)"
  proof (cases "compare_fitness ?prob (fOLD ?s) (cur_f ?best)")
    case True
    then have ip: "individuals pop' = (individuals pop)[?b := ?new]" using P by simp
    have wnew: "within_bounds ?prob (cur_x ?new)" using invs by (simp add: sa_inv_def)
    have sub: "set (individuals pop') \<subseteq> insert ?new (set (individuals pop))"
      unfolding ip by (rule set_update_subset_insert)
    show ?thesis
    proof
      fix ind assume "ind \<in> set (individuals pop')"
      then have "ind = ?new \<or> ind \<in> set (individuals pop)" using sub by auto
      then show "within_bounds ?prob (cur_x ind)"
      proof
        assume "ind = ?new"
        then show ?thesis using wnew by simp
      next
        assume "ind \<in> set (individuals pop)"
        then show ?thesis using inb by simp
      qed
    qed
  next
    case False
    then show ?thesis using P inb by simp
  qed
  have thr: "\<forall>Tcoeff s. sa_reach a ?prob drng ?Dc Tcoeff ?init s
               \<longrightarrow> xNEW s = xOLD s \<and> within_bounds ?prob (xOLD s)"
    using reach by (auto simp: sa_inv_def)
  have fin: "\<forall>Tcoeff n. sa_reach a ?prob drng ?Dc Tcoeff ?init
               (sa_loops a ?prob drng ?Dc Tcoeff n ?init)"
    by (simp add: reach_loops)
  show ?thesis by (intro conjI prob' len' each best members thr fin)
qed

lemma sphere_fields [simp]:
  "get_dimension sphere = 1" "get_i_dimension sphere = 0" "get_c_dimension sphere = 0"
  "get_f_dimension sphere = 1" "get_lb sphere = [- 5]" "get_ub sphere = [5]"
  "objfun sphere x = [\<Sum>v\<leftarrow>x. v * v]" "compare_fitness sphere f g \<longleftrightarrow> f ! 0 < g ! 0"
  by (simp_all add: sphere_def)

lemma sa_small_fields [simp]:
  "m_niter sa_small = 1" "m_Ts sa_small = 10" "m_Tf sa_small = 1" "m_niterT sa_small = 1"
  "m_niterR sa_small = 1" "m_range sa_small = 1"
  by (simp_all add: sa_small_def)

lemma s_first_fields [simp]:
  "xNEW s_first = [1]" "xOLD s_first = [1]" "fNEW s_first = [1]" "fOLD s_first = [1]"
  "Step s_first = [1]" "acp s_first = [0]" "currentT s_first = 10" "nter s_first = 0"
  "draws s_first = 0" "evals s_first = 0"
  by (simp_all add: s_first_def sa_init_def)

lemma niterOuter_small: "niterOuter_of sa_small (Suc 0) = Inr (Suc 0)"
  by (simp add: niterOuter_of_def to_size_t_def)

lemma move_small:
  "xOLD (sa_move sphere (const_rng (9/20)) (Suc 0)
           (sweep_start (const_rng (9/20)) (Suc 0) s_first)) = [0]"
  "fOLD (sa_move sphere (const_rng (9/20)) (Suc 0)
           (sweep_start (const_rng (9/20)) (Suc 0) s_first)) = [0]"
  by (simp_all add: sweep_start_def sa_move_def const_rng_def int_cast_def accept_def Let_def)

lemma loops_small:
  "xOLD (sa_loops sa_small sphere (const_rng (9/20)) (Suc 0) T (Suc 0) s_first) = [0]"
  "fOLD (sa_loops sa_small sphere (const_rng (9/20)) (Suc 0) T (Suc 0) s_first) = [0]"
  by (simp_all add: sa_loops_def sa_stage_def sa_period_def sa_sweep_def to_size_t_def
      move_small)

lemma evolve_pop_small:
  "evolve sa_small (const_rng (9/20)) first_idx pop_small = Inr pop_small_evolved"
proof -
  have init: "sa_init sa_small (Suc 0) [1] [1] = s_first" by (simp add: s_first_def)
  show ?thesis
    unfolding evolve_def
    by (simp add: pop_small_def pop_small_evolved_def niterOuter_small first_idx_def init
        loops_small Let_def get_individual_def set_x_def set_v_def)
qed

lemma evolve_velocity_zero:
  assumes "evolve a drng get_best_idx pop = Inr pop'" and "pop' \<noteq> pop"
  shows "cur_v (individuals pop' ! get_best_idx pop)
           = replicate (length (cur_x (individuals pop' ! get_best_idx pop))) 0"
proof -
  from evolve_Inr [OF assms(1)] obtain xs where
    b: "get_best_idx pop < length (individuals pop)"
    and P: "pop' = pop\<lparr>individuals := (individuals pop)[get_best_idx pop :=
              (individuals pop ! get_best_idx pop)
                \<lparr>cur_x := xs, cur_v := replicate (length xs) 0\<rparr>]\<rparr>"
    using assms(2) by (auto split: if_splits)
  show ?thesis using b by (simp add: P)
qed

text \<open>
  Claim C1 says that, when the final point improves on the best individual, its decision
  vector is overwritten with the final point and its velocity is set to the coordinate-wise
  difference between the old and the new decision vector. The code calls \<^verbatim>\<open>set_x\<close> first
  and forms the difference afterwards, between the final point and the decision vector it
  has just written: the velocity it stores is the zero vector. On the small run the best
  individual moves from \<open>[1]\<close> to \<open>[0]\<close>; the difference of old and new is \<open>[1]\<close> (or \<open>[-1]\<close> the
  other way round) and the stored velocity is \<open>[0]\<close>.
\<close>

theorem evolve_velocity_is_zero_not_delta:
  "evolve sa_small (const_rng (9/20)) first_idx pop_small = Inr pop_small_evolved
   \<and> cur_x (individuals pop_small ! 0) = [1]
   \<and> cur_x (individuals pop_small_evolved ! 0) = [0]
   \<and> cur_v (individuals pop_small_evolved ! 0) = [0]
   \<and> map2 (-) (cur_x (individuals pop_small ! 0)) (cur_x (individuals pop_small_evolved ! 0)) = [1]
   \<and> map2 (-) (cur_x (individuals pop_small_evolved ! 0)) (cur_x (individuals pop_small ! 0)) = [- 1]"
  by (simp add: evolve_pop_small) (simp add: pop_small_def pop_small_evolved_def)

lemma niterOuter_zero_period:
  assumes "m_niterT a = 0 \<or> m_niterR a = 0"
  shows "niterOuter_of a Dc = Inl division_by_zero"
  using assms by (auto simp: niterOuter_of_def to_size_t_def)

lemma niterOuter_defined:
  assumes "niterOuter_of a Dc = Inr n"
  shows "m_niterT a \<noteq> 0 \<and> m_niterR a \<noteq> 0 \<and> Dc \<noteq> 0"
proof -
  have "(to_size_t (m_niterT a * m_niterR a) * Dc) mod 2 ^ 64 \<noteq> 0"
    using assms by (auto simp: niterOuter_of_def Let_def split: if_splits)
  then show ?thesis by (cases "Dc = 0") (auto simp: to_size_t_def)
qed

lemma to_size_t_small: "0 \<le> i \<Longrightarrow> i < 2 ^ 64 \<Longrightarrow> to_size_t i = nat i"
  by (simp add: to_size_t_def)

lemma niterOuter_no_wrap:
  assumes "1 \<le> m_niterT a" "1 \<le> m_niterR a" "0 < Dc"
    and "m_niterT a * m_niterR a * int Dc < 2 ^ 64"
  shows "niterOuter_of a Dc = Inr (to_size_t (m_niter a) div (nat (m_niterT a * m_niterR a) * Dc))"
proof -
  let ?p = "m_niterT a * m_niterR a"
  have p1: "1 \<le> ?p" using assms(1,2) by (simp add: mult_le_cancel_left1 order_trans [OF _ mult_left_mono [of 1 "m_niterR a" "m_niterT a"]])
  have "?p * 1 \<le> ?p * int Dc" using p1 assms(3) by (intro mult_left_mono) simp_all
  then have plt: "?p < 2 ^ 64" using assms(4) by simp
  have ts: "to_size_t ?p = nat ?p" using p1 plt by (simp add: to_size_t_small)
  have "int (nat ?p * Dc) = ?p * int Dc" using p1 by simp
  then have "int (nat ?p * Dc) < 2 ^ 64" using assms(4) by simp
  then have lt: "nat ?p * Dc < 2 ^ 64" by (metis of_nat_less_numeral_power_cancel_iff)
  have pos: "0 < nat ?p * Dc" using p1 assms(3) by simp
  show ?thesis using ts lt pos by (simp add: niterOuter_of_def Let_def)
qed

lemma ctor_accepts:
  assumes "0 \<le> niter" "0 < Tf" "Tf < Ts" "0 \<le> niterT" "0 \<le> niterR" "0 \<le> range'" "range' \<le> 1"
  shows "sa_corana_ctor niter Ts Tf niterT niterR range' =
           Inr \<lparr>m_niter = niter, m_Ts = Ts, m_Tf = Tf, m_niterT = niterT,
                m_niterR = niterR, m_range = range'\<rparr>"
  using assms by (simp add: sa_corana_ctor_def)

lemma evolve_division_by_zero:
  assumes "niterOuter_of a (get_dimension (pop_problem pop) - get_i_dimension (pop_problem pop))
             = Inl division_by_zero"
    and "get_dimension (pop_problem pop) - get_i_dimension (pop_problem pop) \<noteq> 0"
    and "get_c_dimension (pop_problem pop) = 0" "get_f_dimension (pop_problem pop) = 1"
  shows "evolve a drng get_best_idx pop = Inl division_by_zero"
  using assms by (simp add: evolve_def Let_def)

text \<open>
  Claim C10. The constructor accepts a temperature-adjustment period of \<open>0\<close> and a
  step-adjustment period of \<open>0\<close>; for every such algorithm the divisor of the outer loop
  count is zero, and \<^verbatim>\<open>evolve\<close> on a compatible population divides by zero. The division is
  defined only if both periods are at least \<open>1\<close>; conversely it is defined when both are at
  least \<open>1\<close>, the continuous dimension is positive and the divisor does not wrap around.
\<close>

theorem zero_period_division_by_zero:
  "(\<exists>a. sa_corana_ctor 1 10 1 0 1 1 = Inr a \<and> niterOuter_of a Dc = Inl division_by_zero)
   \<and> (\<exists>a. sa_corana_ctor 1 10 1 1 0 1 = Inr a \<and> niterOuter_of a Dc = Inl division_by_zero)
   \<and> (sa_corana_ctor niter Ts Tf niterT niterR range' = Inr a \<longrightarrow>
        (niterT = 0 \<or> niterR = 0 \<longrightarrow>
           niterOuter_of a Dc = Inl division_by_zero
           \<and> (get_dimension (pop_problem pop) - get_i_dimension (pop_problem pop) \<noteq> 0
                \<and> get_c_dimension (pop_problem pop) = 0
                \<and> get_f_dimension (pop_problem pop) = 1 \<longrightarrow>
              evolve a drng get_best_idx pop = Inl division_by_zero))
        \<and> (\<forall>n. niterOuter_of a Dc = Inr n \<longrightarrow> 1 \<le> niterT \<and> 1 \<le> niterR)
        \<and> (1 \<le> niterT \<and> 1 \<le> niterR \<and> 0 < Dc \<and> niterT * niterR * int Dc < 2 ^ 64 \<longrightarrow>
             (\<exists>n. niterOuter_of a Dc = Inr n)))"
proof (intro conjI impI allI)
  show "\<exists>a. sa_corana_ctor 1 10 1 0 1 1 = Inr a \<and> niterOuter_of a Dc = Inl division_by_zero"
    by (simp add: ctor_accepts niterOuter_zero_period)
  show "\<exists>a. sa_corana_ctor 1 10 1 1 0 1 = Inr a \<and> niterOuter_of a Dc = Inl division_by_zero"
    by (simp add: ctor_accepts niterOuter_zero_period)
next
  assume c: "sa_corana_ctor niter Ts Tf niterT niterR range' = Inr a"
    and z: "niterT = 0 \<or> niterR = 0"
  have za: "m_niterT a = 0 \<or> m_niterR a = 0" using z ctor_Inr(1) [OF c] by simp
  show "niterOuter_of a Dc = Inl division_by_zero"
    by (rule niterOuter_zero_period [OF za])
  assume comp: "get_dimension (pop_problem pop) - get_i_dimension (pop_problem pop) \<noteq> 0
                \<and> get_c_dimension (pop_problem pop) = 0
                \<and> get_f_dimension (pop_problem pop) = 1"
  show "evolve a drng get_best_idx pop = Inl division_by_zero"
    using comp by (intro evolve_division_by_zero niterOuter_zero_period [OF za]) simp_all
next
  fix n
  assume c: "sa_corana_ctor niter Ts Tf niterT niterR range' = Inr a"
    and n: "niterOuter_of a Dc = Inr n"
  note f = ctor_Inr [OF c]
  have "m_niterT a \<noteq> 0 \<and> m_niterR a \<noteq> 0" using niterOuter_defined [OF n] by simp
  then have "niterT \<noteq> 0 \<and> niterR \<noteq> 0" using f(1) by simp
  then show "1 \<le> niterT" and "1 \<le> niterR" using f(5,6) by simp_all
next
  assume c: "sa_corana_ctor niter Ts Tf niterT niterR range' = Inr a"
    and h: "1 \<le> niterT \<and> 1 \<le> niterR \<and> 0 < Dc \<and> niterT * niterR * int Dc < 2 ^ 64"
  have a: "m_niterT a = niterT" "m_niterR a = niterR" using ctor_Inr(1) [OF c] by simp_all
  show "\<exists>n. niterOuter_of a Dc = Inr n"
    using niterOuter_no_wrap [of a Dc] h a by simp
qed

text \<open>
  The statement of C10 at an algorithm with temperature-adjustment period \<open>0\<close>, and at
  the algorithm of the small run, whose division is defined.
\<close>

theorem zero_period_division_by_zero_witness:
  "sa_corana_ctor 1 10 1 0 1 1 =
     Inr \<lparr>m_niter = 1, m_Ts = 10, m_Tf = 1, m_niterT = 0, m_niterR = 1, m_range = 1\<rparr>
   \<and> evolve \<lparr>m_niter = 1, m_Ts = 10, m_Tf = 1, m_niterT = 0, m_niterR = 1, m_range = 1\<rparr>
        (const_rng 0) first_idx pop_small = Inl division_by_zero
   \<and> sa_corana_ctor 1 10 1 1 1 1 = Inr sa_small
   \<and> niterOuter_of sa_small 1 = Inr 1"
proof -
  let ?a = "\<lparr>m_niter = 1, m_Ts = 10, m_Tf = 1, m_niterT = 0, m_niterR = 1, m_range = 1\<rparr>"
  have c: "sa_corana_ctor 1 10 1 0 1 1 = Inr ?a" by (simp add: ctor_accepts)
  have comp: "get_dimension (pop_problem pop_small) - get_i_dimension (pop_problem pop_small) \<noteq> 0
                \<and> get_c_dimension (pop_problem pop_small) = 0
                \<and> get_f_dimension (pop_problem pop_small) = 1"
    by (simp add: pop_small_def)
  have e: "evolve ?a (const_rng 0) first_idx pop_small = Inl division_by_zero"
    using zero_period_division_by_zero
            [of 1 1 10 1 0 1 1 ?a pop_small "const_rng 0" first_idx] c comp
    by simp
  have c2: "sa_corana_ctor 1 10 1 1 1 1 = Inr sa_small" by (simp add: ctor_accepts sa_small_def)
  have "\<exists>n. niterOuter_of sa_small 1 = Inr n"
    using zero_period_division_by_zero
            [of 1 1 10 1 1 1 1 sa_small pop_small "const_rng 0" first_idx] c2
    by simp
  then have "niterOuter_of sa_small 1 = Inr 1" using niterOuter_small by simp
  then show ?thesis using c e c2 by simp
qed

text \<open>
  Claim C3 says that construction fails if and only if a hyperparameter violates the
  contract, of which the first clause is a total iteration budget greater than \<open>0\<close>; the
  doc comment of the constructor says the same (\<^verbatim>\<open>@throws value_error niter is non positive\<close>).
  The guard of the constructor is \<^verbatim>\<open>niter < 0\<close>: a budget of \<open>0\<close> with otherwise valid
  hyperparameters violates the contract and is accepted, and the failure comes from
  \<^verbatim>\<open>evolve\<close>, which finds the outer loop count zero.
\<close>

theorem ctor_accepts_zero_budget:
  "sa_corana_ctor 0 10 1 1 1 1 =
     Inr \<lparr>m_niter = 0, m_Ts = 10, m_Tf = 1, m_niterT = 1, m_niterR = 1, m_range = 1\<rparr>
   \<and> \<not> spec_hyperparameters_ok 0 10 1 1 1 1
   \<and> evolve \<lparr>m_niter = 0, m_Ts = 10, m_Tf = 1, m_niterT = 1, m_niterR = 1, m_range = 1\<rparr>
         (const_rng 0) first_idx pop_small
       = Inl (value_error ''niterOuter is zero, increase niter'')"
proof -
  let ?a = "\<lparr>m_niter = 0, m_Ts = 10, m_Tf = 1, m_niterT = 1, m_niterR = 1, m_range = 1\<rparr>"
  have n: "niterOuter_of ?a (Suc 0) = Inr 0"
    by (simp add: niterOuter_of_def to_size_t_def)
  have e: "evolve ?a (const_rng 0) first_idx pop_small
             = Inl (value_error ''niterOuter is zero, increase niter'')"
    unfolding evolve_def by (simp add: pop_small_def n Let_def)
  show ?thesis using e by (simp add: ctor_accepts spec_hyperparameters_ok_def)
qed

text \<open>
  The statement of C2 at the start state of the small run, with three generators: one
  that sends the candidate out of the bounds, one that gives an improving candidate, one
  that gives a candidate within the bounds that does not improve.
\<close>

theorem sa_move_decision_witness:
  "out_of_bounds sphere (const_rng (1/10)) 1 s_first
   \<and> move_reverted sphere (const_rng (1/10)) 1 s_first (sa_move sphere (const_rng (1/10)) 1 s_first)
   \<and> evals (sa_move sphere (const_rng (1/10)) 1 s_first) = evals s_first
   \<and> \<not> out_of_bounds sphere (const_rng (9/20)) 1 s_first
   \<and> compare_fitness sphere (objfun sphere (candidate sphere (const_rng (9/20)) 1 s_first))
        (fOLD s_first)
   \<and> move_accepted sphere (const_rng (9/20)) 1 s_first (sa_move sphere (const_rng (9/20)) 1 s_first)
   \<and> \<not> out_of_bounds sphere (const_rng (11/20)) 1 s_first
   \<and> \<not> compare_fitness sphere (objfun sphere (candidate sphere (const_rng (11/20)) 1 s_first))
        (fOLD s_first)
   \<and> draws (sa_move sphere (const_rng (11/20)) 1 s_first) = draws s_first + 2"
proof -
  have a: "out_of_bounds sphere (const_rng (1/10)) 1 s_first"
    by (simp add: out_of_bounds_def candidate_def move_index_def const_rng_def)
  have b: "\<not> out_of_bounds sphere (const_rng (9/20)) 1 s_first
           \<and> compare_fitness sphere (objfun sphere (candidate sphere (const_rng (9/20)) 1 s_first))
                (fOLD s_first)"
    by (simp add: out_of_bounds_def candidate_def move_index_def const_rng_def)
  have c: "\<not> out_of_bounds sphere (const_rng (11/20)) 1 s_first
           \<and> \<not> compare_fitness sphere (objfun sphere (candidate sphere (const_rng (11/20)) 1 s_first))
                (fOLD s_first)"
    by (simp add: out_of_bounds_def candidate_def move_index_def const_rng_def)
  show ?thesis
    using a b c sa_move_decision [of sphere "const_rng (1/10)" 1 s_first]
      sa_move_decision [of sphere "const_rng (9/20)" 1 s_first]
      sa_move_decision [of sphere "const_rng (11/20)" 1 s_first]
    by blast
qed


text \<open>
  The statement of C8 at the small run, whose single move improves the best individual
  from objective value \<open>1\<close> to \<open>0\<close>.
\<close>

theorem evolve_never_regresses_witness:
  "evolve sa_small (const_rng (9/20)) first_idx pop_small = Inr pop_small_evolved
   \<and> list_all (\<lambda>ind. within_bounds (pop_problem pop_small) (cur_x ind)) (individuals pop_small)
   \<and> list_all (\<lambda>ind. cur_f ind = objfun (pop_problem pop_small) (cur_x ind))
         (individuals pop_small)
   \<and> best_objective pop_small_evolved \<le> best_objective pop_small
   \<and> best_objective pop_small_evolved = 0 \<and> best_objective pop_small = 1
   \<and> list_all (\<lambda>ind. within_bounds (pop_problem pop_small) (cur_x ind))
         (individuals pop_small_evolved)"
proof -
  have prob: "pop_problem pop_small = sphere" by (simp add: pop_small_def)
  have h1: "\<forall>f g. compare_fitness (pop_problem pop_small) f g \<longrightarrow> f ! 0 < g ! 0"
    by (simp add: prob)
  have h2: "\<forall>ind\<in>set (individuals pop_small). within_bounds (pop_problem pop_small) (cur_x ind)"
    by (simp add: prob) (simp add: pop_small_def within_bounds_def)
  have h3: "\<forall>ind\<in>set (individuals pop_small). cur_f ind = objfun (pop_problem pop_small) (cur_x ind)"
    by (simp add: prob) (simp add: pop_small_def)
  have b1: "best_objective pop_small_evolved = 0"
    by (simp add: best_objective_def objective_def pop_small_evolved_def)
  have b2: "best_objective pop_small = 1"
    by (simp add: best_objective_def objective_def pop_small_def)
  show ?thesis
    using evolve_never_regresses [OF evolve_pop_small h1 h2 h3] evolve_pop_small h2 h3 b1 b2
    by (simp add: list_all_iff)
qed

end
